theory Spec2Isabelle
  imports Main "HOL-Library.Word"
begin

section \<open>The browser agent loop of openai-computeruse-example\<close>

text \<open>
  A shallow embedding of \<^verbatim>\<open>browser.go\<close> and of the loop and dispatcher of
  \<^verbatim>\<open>openai.go\<close>. The program talks to three collaborators it does not contain:
  the rod browser driver, the HTTP endpoint of the decision service, and the
  \<^verbatim>\<open>context.Context\<close> handed in by the caller. Every call to one of them is
  recorded as an event of a trace, in program order, and what the collaborator
  answers is read from an environment record whose fields are functions of the
  trace so far. The program itself is deterministic, so each Go function becomes
  a HOL function from the trace (and its arguments) to the extended trace (and
  its results).

  The driver's \<^verbatim>\<open>Must...\<close> calls are taken to return: a panic inside the driver
  is not modelled. Go's \<^verbatim>\<open>int\<close> is \<^typ>\<open>int\<close>; the program does no arithmetic on
  coordinates, and the turn counter stays below \<^verbatim>\<open>maxTurns\<close>. The three debug
  printers (\<^verbatim>\<open>debugInput\<close>, \<^verbatim>\<open>debugResponse\<close>, \<^verbatim>\<open>debugComputerOutput\<close>) only format
  and persist what they are given and never fail; they are left out, and so are
  the browser methods the loop never calls (\<^verbatim>\<open>Move\<close>, \<^verbatim>\<open>DoubleClick\<close>, \<^verbatim>\<open>Wait\<close>,
  \<^verbatim>\<open>Drag\<close>). Records keep the fields the loop reads or writes; a field of a
  request that stays at its zero value is not sent (\<^verbatim>\<open>omitempty\<close>).
\<close>

subsection \<open>Data contracts (openai.go)\<close>

type_synonym byte = "8 word"

text \<open>
  Go's \<^verbatim>\<open>error\<close> values. \<open>External\<close> is an error made by a collaborator,
  \<open>Errorf\<close> a fresh \<^verbatim>\<open>fmt.Errorf(msg)\<close>, \<open>Wrapf p e\<close> is
  \<^verbatim>\<open>fmt.Errorf(p + ": %w", e)\<close>, and \<open>Status_error\<close> the non-200 reply.
\<close>

datatype error =
    External string
  | Errorf string
  | Wrapf string error
  | Status_error nat string

record ComputerOutput =
  co_Type :: string
  co_ImageURL :: string
  co_CurrentURL :: string

record SafetyCheck =
  sc_ID :: string
  sc_Code :: string
  sc_Message :: string

record Input =
  in_Type :: string
  in_CallID :: string
  in_Output :: "ComputerOutput option"
  in_Role :: string
  in_Content :: string
  in_AcknowledgedSafetyChecks :: "SafetyCheck list"

record Tool =
  tool_Type :: string
  tool_DisplayWidth :: int
  tool_DisplayHeight :: int
  tool_Environment :: string

record Request =
  req_Model :: string
  req_Input :: "Input list"
  req_Tools :: "Tool list"
  req_Truncation :: string
  req_PreviousResponseID :: string

record Action =
  act_Type :: string
  act_Keys :: "string list"
  act_Button :: string
  act_Text :: string
  act_X :: int
  act_Y :: int
  act_ScrollX :: int
  act_ScrollY :: int

text \<open>
  An element of \<^verbatim>\<open>Content []any\<close> is read by the loop in one way only, through
  \<^verbatim>\<open>fmt.Sprint\<close>; it is represented by the text \<^verbatim>\<open>fmt.Sprint\<close> prints for it (the
  JSON string \<^verbatim>\<open>""\<close> prints as the empty text). A nil slice or pointer is
  \<open>None\<close>; \<open>Some []\<close> is the empty slice a JSON \<^verbatim>\<open>[]\<close> decodes to.
\<close>

type_synonym any = string

record OutputItem =
  out_Type :: string
  out_ID :: string
  out_CallID :: string
  out_Status :: string
  out_Action :: "Action option"
  out_Role :: string
  out_Content :: "any list option"
  out_PendingSafetyChecks :: "SafetyCheck list"

record Response =
  resp_ID :: string
  resp_Status :: string
  resp_Output :: "OutputItem list"

subsection \<open>Events and the environment\<close>

datatype key =
    Enter | Delete | Tab | Escape
  | ArrowLeft | ArrowRight | ArrowUp | ArrowDown
  | PageUp | PageDown

datatype event =
    Connect
  | CreateTarget string
  | SetViewport int int
  | WaitStable
  | MustClose
  | TakeScreenshot
  | MustInfo
  | InsertText string
  | Press key
  | MoveTo int int
  | MouseDown string
  | MouseUp string
  | MouseScroll int int
  | Stdout string
  | Sleep nat
  | Post Request

text \<open>What \<^verbatim>\<open>client.Do\<close>, \<^verbatim>\<open>io.ReadAll\<close> and \<^verbatim>\<open>json.Unmarshal\<close> give for one request.\<close>

datatype http_reply =
    Send_failed error
  | Read_failed error
  | Replied nat string "error + Response"

record env =
  getenv :: "string \<Rightarrow> string"
  page_create :: "event list \<Rightarrow> string \<Rightarrow> error option"
  page_screenshot :: "event list \<Rightarrow> error + byte list"
  page_url :: "event list \<Rightarrow> string"
  http_do :: "event list \<Rightarrow> Request \<Rightarrow> http_reply"
  ctx_done :: "event list \<Rightarrow> bool"

subsection \<open>Browser (browser.go)\<close>

text \<open>
  The browser and its one page are the trace: a method takes the trace and
  returns it extended by the driver calls it makes, in the order of the source.
\<close>

record Browser =
  width :: int
  height :: int

definition NewBrowser :: "event list \<Rightarrow> int \<Rightarrow> int \<Rightarrow> event list \<times> Browser" where
  "NewBrowser tr w h = (tr @ [Connect], \<lparr>width = w, height = h\<rparr>)"

definition Close :: "event list \<Rightarrow> event list" where
  "Close tr = tr @ [MustClose]"

definition Open :: "env \<Rightarrow> Browser \<Rightarrow> event list \<Rightarrow> string \<Rightarrow> event list \<times> error option" where
  "Open e b tr url =
     (case page_create e tr url of
        Some err \<Rightarrow> (tr @ [CreateTarget url], Some (Wrapf ''error opening page'' err))
      | None \<Rightarrow> (tr @ [CreateTarget url, SetViewport (width b) (height b), WaitStable], None))"

definition Screenshot :: "env \<Rightarrow> event list \<Rightarrow> event list \<times> (error + byte list)" where
  "Screenshot e tr =
     (case page_screenshot e tr of
        Inl err \<Rightarrow> (tr @ [TakeScreenshot], Inl (Wrapf ''error taking screenshot'' err))
      | Inr screenshot \<Rightarrow> (tr @ [TakeScreenshot], Inr screenshot))"

definition GetCurrentUrl :: "env \<Rightarrow> event list \<Rightarrow> event list \<times> string" where
  "GetCurrentUrl e tr = (tr @ [MustInfo], page_url e tr)"

text \<open>
  \<^verbatim>\<open>strings.ToLower\<close> on the bytes of a key name: the letters A to Z are lowered,
  every other byte is kept (exact for ASCII names, which all names of the
  key table are).
\<close>

definition lower_char :: "char \<Rightarrow> char" where
  "lower_char c =
     (if 65 \<le> (of_char c :: nat) \<and> (of_char c :: nat) \<le> 90
      then char_of ((of_char c :: nat) + 32) else c)"

definition ToLower :: "string \<Rightarrow> string" where
  "ToLower s = map lower_char s"

text \<open>One round of the \<^verbatim>\<open>for _, key := range keys\<close> loop: the switch on the lowered name.\<close>

definition press_key :: "event list \<Rightarrow> string \<Rightarrow> event list" where
  "press_key tr k =
     (let l = ToLower k in
      if l = ''enter'' then tr @ [Press Enter]
      else if l = ''return'' then tr @ [Press Enter]
      else if l = ''delete'' then tr @ [Press Delete]
      else if l = ''tab'' then tr @ [Press Tab]
      else if l = ''escape'' then tr @ [Press Escape]
      else if l = ''left'' then tr @ [Press ArrowLeft]
      else if l = ''right'' then tr @ [Press ArrowRight]
      else if l = ''up'' then tr @ [Press ArrowUp]
      else if l = ''down'' then tr @ [Press ArrowDown]
      else if l = ''page_up'' then tr @ [Press PageUp]
      else if l = ''page_down'' then tr @ [Press PageDown]
      else tr @ [Stdout (''key: '' @ k @ '' is not implemented'')])"

definition Keypress :: "event list \<Rightarrow> string list \<Rightarrow> event list" where
  "Keypress tr keys = foldl press_key tr keys @ [WaitStable]"

definition Type :: "event list \<Rightarrow> string \<Rightarrow> event list" where
  "Type tr text = tr @ [InsertText text]"

definition Click :: "event list \<Rightarrow> int \<Rightarrow> int \<Rightarrow> string \<Rightarrow> event list" where
  "Click tr x y button =
     (tr @ [MoveTo x y])
       @ (if button = ''right'' then [MouseDown ''right'', MouseUp ''right'']
          else [MouseDown ''left'', MouseUp ''left''])
       @ [WaitStable]"

definition Scroll :: "event list \<Rightarrow> int \<Rightarrow> int \<Rightarrow> int \<Rightarrow> int \<Rightarrow> event list" where
  "Scroll tr x y scrollX scrollY = tr @ [MoveTo x y, MouseScroll scrollX scrollY, WaitStable]"

subsection \<open>The decision service client (openai.go, Responses)\<close>

text \<open>
  \<^verbatim>\<open>Responses\<close>, lines 180 to 241. Marshalling this request and building the
  POST for the fixed address cannot fail, so the two error returns after
  \<^verbatim>\<open>json.Marshal\<close> and \<^verbatim>\<open>http.NewRequest\<close> have no branch here. The round trip is
  one \<open>Post\<close> event, answered by \<open>http_do\<close>.
\<close>

definition Responses ::
  "env \<Rightarrow> event list \<Rightarrow> string \<Rightarrow> string \<Rightarrow> Input list \<Rightarrow> event list \<times> (error + Response)" where
  "Responses e tr model responseID input =
     (let apiKey = getenv e ''OPENAI_API_KEY'' in
      if apiKey = '''' then (tr, Inl (Errorf ''OPENAI_API_KEY environment variable is not set''))
      else
        let request = \<lparr>req_Model = model, req_Input = input,
                         req_Tools = [\<lparr>tool_Type = ''computer-preview'', tool_DisplayWidth = 1024,
                                       tool_DisplayHeight = 768, tool_Environment = ''browser''\<rparr>],
                         req_Truncation = ''auto'', req_PreviousResponseID = responseID\<rparr>
        in case http_do e tr request of
             Send_failed err \<Rightarrow> (tr @ [Post request], Inl (Wrapf ''failed to send request'' err))
           | Read_failed err \<Rightarrow> (tr @ [Post request], Inl (Wrapf ''failed to read response body'' err))
           | Replied status body parsed \<Rightarrow>
               if status \<noteq> 200 then (tr @ [Post request], Inl (Status_error status body))
               else (case parsed of
                       Inl err \<Rightarrow> (tr @ [Post request], Inl (Wrapf ''failed to unmarshal response'' err))
                     | Inr response \<Rightarrow> (tr @ [Post request], Inr response)))"

subsection \<open>The dispatcher (openai.go, computerCall)\<close>

text \<open>\<^verbatim>\<open>base64.StdEncoding.EncodeToString\<close> of the Go library (RFC 4648, with padding).\<close>

definition b64_digit :: "nat \<Rightarrow> char" where
  "b64_digit n =
     (''ABCDEFGHIJKLMNOPQRSTUVWXYZabcdefghijklmnopqrstuvwxyz0123456789+/'') ! n"

fun EncodeToString :: "byte list \<Rightarrow> string" where
  "EncodeToString [] = []"
| "EncodeToString [a] =
     (let n = unat a * 65536 in
      [b64_digit (n div 262144), b64_digit (n div 4096 mod 64), CHR ''='', CHR ''=''])"
| "EncodeToString [a, b] =
     (let n = unat a * 65536 + unat b * 256 in
      [b64_digit (n div 262144), b64_digit (n div 4096 mod 64), b64_digit (n div 64 mod 64),
       CHR ''=''])"
| "EncodeToString (a # b # c # rest) =
     (let n = unat a * 65536 + unat b * 256 + unat c in
      [b64_digit (n div 262144), b64_digit (n div 4096 mod 64), b64_digit (n div 64 mod 64),
       b64_digit (n mod 64)] @ EncodeToString rest)"

definition dataURL :: "byte list \<Rightarrow> string" where
  "dataURL data = ''data:image/png;base64,'' @ EncodeToString data"

text \<open>
  The \<^verbatim>\<open>switch action.Type\<close> of \<^verbatim>\<open>computerCall\<close> (lines 347 to 360); it has no
  default case, so an unlisted kind runs no branch.
\<close>

definition perform :: "event list \<Rightarrow> Action \<Rightarrow> event list" where
  "perform tr action =
     (if act_Type action = ''screenshot'' then tr
      else if act_Type action = ''type'' then Type tr (act_Text action)
      else if act_Type action = ''click''
        then Click tr (act_X action) (act_Y action) (act_Button action)
      else if act_Type action = ''scroll''
        then Scroll tr (act_X action) (act_Y action) (act_ScrollX action) (act_ScrollY action)
      else if act_Type action = ''keypress'' then Keypress tr (act_Keys action)
      else if act_Type action = ''wait'' then tr @ [Sleep 3000]
      else tr)"

definition computerCall :: "env \<Rightarrow> event list \<Rightarrow> Action \<Rightarrow> event list \<times> (error + ComputerOutput)" where
  "computerCall e tr action =
     (case Screenshot e (perform tr action) of
        (tr1, Inl err) \<Rightarrow> (tr1, Inl (Wrapf ''error taking screenshot'' err))
      | (tr1, Inr screenshot) \<Rightarrow>
          (case GetCurrentUrl e tr1 of
             (tr2, url) \<Rightarrow>
               (tr2, Inr \<lparr>co_Type = ''input_image'', co_ImageURL = dataURL screenshot,
                          co_CurrentURL = url\<rparr>)))"

subsection \<open>The agent loop (openai.go, BrowserUse)\<close>

text \<open>The variables of \<^verbatim>\<open>BrowserUse\<close> that live across iterations.\<close>

record vars =
  responseID :: string
  callID :: string
  callResp :: "ComputerOutput option"

text \<open>Their zero values, before the first iteration.\<close>

definition initial_vars :: vars where
  "initial_vars = \<lparr>responseID = '''', callID = '''', callResp = None\<rparr>"

text \<open>
  How one invocation leaves the loop: \<open>Broke s\<close> is the \<^verbatim>\<open>break\<close> on a non-empty
  \<^verbatim>\<open>finalOutput\<close>, \<open>Ran_out\<close> the end of the \<^verbatim>\<open>for\<close> statement when
  \<^verbatim>\<open>i < maxTurns\<close> fails, \<open>Returned err\<close> one of the \<^verbatim>\<open>return fmt.Errorf(...)\<close>
  statements, and \<open>Panicked\<close> the index out of range of \<^verbatim>\<open>o.Content[0]\<close>.
  What the caller receives is \<open>result\<close>: both \<open>Broke\<close> and \<open>Ran_out\<close> fall
  through to the final \<^verbatim>\<open>return nil\<close>.
\<close>

datatype outcome = Broke string | Ran_out | Returned error | Panicked

datatype returned = Return_nil | Return_error error | Panic

definition result :: "outcome \<Rightarrow> returned" where
  "result out =
     (case out of
        Broke s \<Rightarrow> Return_nil
      | Ran_out \<Rightarrow> Return_nil
      | Returned err \<Rightarrow> Return_error err
      | Panicked \<Rightarrow> Panic)"

text \<open>\<^verbatim>\<open>fmt.Println\<close> of a \<^verbatim>\<open>[]SafetyCheck\<close>: \<^verbatim>\<open>[{id code message} ...]\<close>.\<close>

fun join_space :: "string list \<Rightarrow> string" where
  "join_space [] = []"
| "join_space [s] = s"
| "join_space (s # t # rest) = s @ '' '' @ join_space (t # rest)"

definition show_checks :: "SafetyCheck list \<Rightarrow> string" where
  "show_checks cs =
     ''['' @ join_space (map (\<lambda>c. ''{'' @ sc_ID c @ '' '' @ sc_Code c @ '' '' @ sc_Message c @ ''}'') cs)
       @ '']''"

definition newline :: string where
  "newline = [CHR 0x0A]"

text \<open>The block \<^verbatim>\<open>if o.Action != nil { ... }\<close> of the scan over \<^verbatim>\<open>response.Output\<close>.\<close>

definition dispatch_item ::
  "env \<Rightarrow> OutputItem \<Rightarrow> event list \<Rightarrow> vars \<Rightarrow> event list \<times> (error + vars)" where
  "dispatch_item e item tr vs =
     (case out_Action item of
        None \<Rightarrow> (tr, Inr vs)
      | Some action \<Rightarrow>
          (case computerCall e tr action of
             (tr1, Inl err) \<Rightarrow> (tr1, Inl (Wrapf ''error executing browser action'' err))
           | (tr1, Inr out) \<Rightarrow>
               (if out_PendingSafetyChecks item \<noteq> []
                then tr1 @ [Stdout (''pending safety checks: ''
                                     @ show_checks (out_PendingSafetyChecks item) @ newline)]
                else tr1,
                Inr (vs\<lparr>callResp := Some out, callID := out_CallID item\<rparr>))))"

text \<open>
  The scan \<^verbatim>\<open>for _, o := range response.Output\<close>. It ends with the variables and
  \<^verbatim>\<open>finalOutput\<close>, or leaves \<^verbatim>\<open>BrowserUse\<close> by a return or a panic.
\<close>

fun output_loop ::
  "env \<Rightarrow> OutputItem list \<Rightarrow> event list \<Rightarrow> vars \<Rightarrow> event list \<times> (outcome + vars \<times> string)" where
  "output_loop e [] tr vs = (tr, Inr (vs, ''''))"
| "output_loop e (item # rest) tr vs =
     (case dispatch_item e item tr vs of
        (tr1, Inl err) \<Rightarrow> (tr1, Inl (Returned err))
      | (tr1, Inr vs1) \<Rightarrow>
          (case out_Content item of
             None \<Rightarrow> output_loop e rest tr1 vs1
           | Some content \<Rightarrow>
               if out_Role item = ''assistant'' then
                 (case content of
                    [] \<Rightarrow> (tr1, Inl Panicked)
                  | c # cs \<Rightarrow> (tr1, Inr (vs1, c)))
               else output_loop e rest tr1 vs1))"

definition model :: string where
  "model = ''computer-use-preview-2025-03-11''"

definition build_messages :: "string \<Rightarrow> vars \<Rightarrow> Input list" where
  "build_messages instruction vs =
     (if responseID vs = ''''
      then [\<lparr>in_Type = '''', in_CallID = '''', in_Output = None, in_Role = ''user'',
              in_Content = instruction, in_AcknowledgedSafetyChecks = []\<rparr>]
      else [\<lparr>in_Type = ''computer_call_output'', in_CallID = callID vs,
              in_Output = callResp vs, in_Role = '''', in_Content = '''',
              in_AcknowledgedSafetyChecks = []\<rparr>])"

text \<open>
  The body of one iteration after the cancellation check: \<open>Inl\<close> leaves the
  loop, \<open>Inr\<close> goes on to the next iteration with the updated variables.
\<close>

definition turn ::
  "env \<Rightarrow> string \<Rightarrow> event list \<Rightarrow> vars \<Rightarrow> event list \<times> (outcome + vars)" where
  "turn e instruction tr vs =
     (case Responses e tr model (responseID vs) (build_messages instruction vs) of
        (tr1, Inl err) \<Rightarrow> (tr1, Inl (Returned (Wrapf ''error calling OpenAI API'' err)))
      | (tr1, Inr response) \<Rightarrow>
          (case output_loop e (resp_Output response) tr1 (vs\<lparr>responseID := resp_ID response\<rparr>) of
             (tr2, Inl out) \<Rightarrow> (tr2, Inl out)
           | (tr2, Inr (vs2, finalOutput)) \<Rightarrow>
               if finalOutput \<noteq> ''''
               then (tr2 @ [Stdout (''Final output: '' @ finalOutput @ newline)],
                     Inl (Broke finalOutput))
               else (tr2 @ [Sleep 1000], Inr vs2)))"

function for_loop ::
  "env \<Rightarrow> string \<Rightarrow> int \<Rightarrow> int \<Rightarrow> event list \<Rightarrow> vars \<Rightarrow> event list \<times> outcome" where
  "for_loop e instruction maxTurns i tr vs =
     (if i < maxTurns then
        (if ctx_done e tr then (tr, Returned (Errorf ''context canceled''))
         else (case turn e instruction tr vs of
                 (tr1, Inl out) \<Rightarrow> (tr1, out)
               | (tr1, Inr vs1) \<Rightarrow> for_loop e instruction maxTurns (i + 1) tr1 vs1))
      else (tr, Ran_out))"
  by pat_completeness auto
termination
  by (relation "measure (\<lambda>(e, instruction, maxTurns, i, tr, vs). nat (maxTurns - i))") auto

text \<open>
  \<^verbatim>\<open>BrowserUse\<close>. The deferred \<^verbatim>\<open>browser.Close()\<close> is registered after the check
  of the error of \<^verbatim>\<open>Open\<close>, so it runs on every way out of the loop (a panic
  included) and not on the return before it.
\<close>

definition BrowserUse :: "env \<Rightarrow> string \<Rightarrow> string \<Rightarrow> int \<Rightarrow> event list \<times> outcome" where
  "BrowserUse e url instruction maxTurns =
     (case NewBrowser [] 1024 768 of
        (tr0, browser) \<Rightarrow>
          (case Open e browser tr0 url of
             (tr1, Some err) \<Rightarrow> (tr1, Returned (Wrapf ''error opening browser'' err))
           | (tr1, None) \<Rightarrow>
               (case for_loop e instruction maxTurns 0 tr1 initial_vars of
                  (tr2, out) \<Rightarrow> (Close tr2, out))))"

declare for_loop.simps [simp del]

subsection \<open>Concrete collaborators and responses\<close>

text \<open>
  A working fake of the three collaborators: the page opens, every screenshot is
  the three bytes \<^verbatim>\<open>Man\<close>, the location is fixed, the service answers each
  request with status 200 and the response \<open>f\<close> computes from it, and the
  context is never cancelled. The variants break one collaborator each.
\<close>

definition fake_env :: "(Request \<Rightarrow> Response) \<Rightarrow> env" where
  "fake_env f =
     \<lparr>getenv = (\<lambda>name. ''sk-test''),
      page_create = (\<lambda>tr url. None),
      page_screenshot = (\<lambda>tr. Inr [77, 97, 110]),
      page_url = (\<lambda>tr. ''http://example.test/''),
      http_do = (\<lambda>tr request. Replied 200 '''' (Inr (f request))),
      ctx_done = (\<lambda>tr. False)\<rparr>"

definition blind_env :: "(Request \<Rightarrow> Response) \<Rightarrow> env" where
  "blind_env f = (fake_env f)\<lparr>page_screenshot := (\<lambda>tr. Inl (External ''target closed''))\<rparr>"

definition unreachable_env :: "(Request \<Rightarrow> Response) \<Rightarrow> env" where
  "unreachable_env f = (fake_env f)\<lparr>page_create := (\<lambda>tr url. Some (External ''net::ERR''))\<rparr>"

definition cancelled_env :: "(Request \<Rightarrow> Response) \<Rightarrow> env" where
  "cancelled_env f = (fake_env f)\<lparr>ctx_done := (\<lambda>tr. True)\<rparr>"

definition no_action :: Action where
  "no_action =
     \<lparr>act_Type = '''', act_Keys = [], act_Button = '''', act_Text = '''',
      act_X = 0, act_Y = 0, act_ScrollX = 0, act_ScrollY = 0\<rparr>"

definition click_at :: "int \<Rightarrow> int \<Rightarrow> Action" where
  "click_at x y = no_action\<lparr>act_Type := ''click'', act_X := x, act_Y := y\<rparr>"

definition drag :: Action where
  "drag = no_action\<lparr>act_Type := ''drag''\<rparr>"

text \<open>The Observation the working fake gives after any action.\<close>

definition observation :: ComputerOutput where
  "observation =
     \<lparr>co_Type = ''input_image'', co_ImageURL = ''data:image/png;base64,TWFu'',
      co_CurrentURL = ''http://example.test/''\<rparr>"

definition no_item :: OutputItem where
  "no_item =
     \<lparr>out_Type = '''', out_ID = '''', out_CallID = '''', out_Status = '''',
      out_Action = None, out_Role = '''', out_Content = None, out_PendingSafetyChecks = []\<rparr>"

definition call_item :: "string \<Rightarrow> Action \<Rightarrow> OutputItem" where
  "call_item cid a =
     no_item\<lparr>out_Type := ''computer_call'', out_CallID := cid, out_Action := Some a\<rparr>"

definition message_item :: "any list \<Rightarrow> OutputItem" where
  "message_item content =
     no_item\<lparr>out_Type := ''message'', out_Role := ''assistant'', out_Content := Some content\<rparr>"

definition reasoning_item :: OutputItem where
  "reasoning_item = no_item\<lparr>out_Type := ''reasoning''\<rparr>"

definition respond :: "string \<Rightarrow> OutputItem list \<Rightarrow> Response" where
  "respond rid items = \<lparr>resp_ID = rid, resp_Status = ''completed'', resp_Output = items\<rparr>"

text \<open>Two computer calls in one response.\<close>

definition two_clicks :: "Request \<Rightarrow> Response" where
  "two_clicks request =
     respond ''r1'' [call_item ''c1'' (click_at 1 2), call_item ''c2'' (click_at 3 4)]"

text \<open>The end-to-end scenario: the first response is the answer.\<close>

definition says_hello :: "Request \<Rightarrow> Response" where
  "says_hello request = respond ''r1'' [message_item [''hello'']]"

text \<open>A service that only ever reasons.\<close>

definition only_reasons :: "Request \<Rightarrow> Response" where
  "only_reasons request = respond ''r1'' [reasoning_item]"

text \<open>A click, then responses that carry neither an action nor an answer.\<close>

definition click_then_reasons :: "Request \<Rightarrow> Response" where
  "click_then_reasons request =
     (if req_PreviousResponseID request = ''''
      then respond ''r1'' [call_item ''c1'' (click_at 1 2)]
      else respond ''r2'' [reasoning_item])"

text \<open>A click and an assistant message whose only content element prints as the empty text.\<close>

definition click_and_empty_text :: "Request \<Rightarrow> Response" where
  "click_and_empty_text request =
     respond ''r1'' [call_item ''c1'' (click_at 1 2), message_item ['''']]"

text \<open>A click and the answer in one response.\<close>

definition click_and_hello :: "Request \<Rightarrow> Response" where
  "click_and_hello request =
     respond ''r1'' [call_item ''c1'' (click_at 1 2), message_item [''hello'']]"

text \<open>An assistant message with a content list that is present and empty.\<close>

definition empty_content :: "Request \<Rightarrow> Response" where
  "empty_content request = respond ''r1'' [message_item []]"

subsection \<open>Vocabulary of the statements\<close>

text \<open>
  An item ends the scan when \<^verbatim>\<open>o.Content != nil\<close> and \<^verbatim>\<open>o.Role == "assistant"\<close>.
  The scan reads the items before the first such item and that item itself.
\<close>

definition is_answer :: "OutputItem \<Rightarrow> bool" where
  "is_answer item = (out_Content item \<noteq> None \<and> out_Role item = ''assistant'')"

definition scanned :: "OutputItem list \<Rightarrow> OutputItem list" where
  "scanned items =
     takeWhile (\<lambda>item. \<not> is_answer item) items
       @ take 1 (dropWhile (\<lambda>item. \<not> is_answer item) items)"

text \<open>
  The events of one item whose capture succeeds: the primitives of its action,
  the screenshot, the location, and the line about pending safety checks.
\<close>

definition item_events :: "OutputItem \<Rightarrow> event list" where
  "item_events item =
     (case out_Action item of
        None \<Rightarrow> []
      | Some action \<Rightarrow>
          perform [] action @ [TakeScreenshot, MustInfo]
            @ (if out_PendingSafetyChecks item \<noteq> []
               then [Stdout (''pending safety checks: ''
                              @ show_checks (out_PendingSafetyChecks item) @ newline)]
               else []))"

text \<open>The requests sent to the service, in order.\<close>

definition requests :: "event list \<Rightarrow> Request list" where
  "requests tr = concat (map (\<lambda>ev. case ev of Post request \<Rightarrow> [request] | _ \<Rightarrow> []) tr)"

text \<open>The request \<^verbatim>\<open>Responses\<close> builds from the continuation token and the input.\<close>

definition request_of :: "string \<Rightarrow> Input list \<Rightarrow> Request" where
  "request_of rid input =
     \<lparr>req_Model = model, req_Input = input,
      req_Tools = [\<lparr>tool_Type = ''computer-preview'', tool_DisplayWidth = 1024,
                    tool_DisplayHeight = 768, tool_Environment = ''browser''\<rparr>],
      req_Truncation = ''auto'', req_PreviousResponseID = rid\<rparr>"

text \<open>The input item a request carries for an executed call.\<close>

definition call_output :: "string \<Rightarrow> ComputerOutput option \<Rightarrow> Input" where
  "call_output cid out =
     \<lparr>in_Type = ''computer_call_output'', in_CallID = cid, in_Output = out,
      in_Role = '''', in_Content = '''', in_AcknowledgedSafetyChecks = []\<rparr>"

definition user_message :: "string \<Rightarrow> Input" where
  "user_message text =
     \<lparr>in_Type = '''', in_CallID = '''', in_Output = None, in_Role = ''user'',
      in_Content = text, in_AcknowledgedSafetyChecks = []\<rparr>"

text \<open>
  The events made on the open page, on standard output and by sleeping: all but
  the start and the end of the browser and the requests to the service.
\<close>

definition page_event :: "event \<Rightarrow> bool" where
  "page_event ev =
     (case ev of
        Connect \<Rightarrow> False
      | CreateTarget url \<Rightarrow> False
      | MustClose \<Rightarrow> False
      | Post request \<Rightarrow> False
      | _ \<Rightarrow> True)"

section \<open>Properties\<close>

subsection \<open>The browser and the dispatcher\<close>

lemma press_key_append: "press_key tr k = tr @ press_key [] k"
  by (simp add: press_key_def Let_def)

lemma foldl_press_key: "foldl press_key tr ks = tr @ concat (map (press_key []) ks)"
proof (induction ks arbitrary: tr)
  case Nil
  show ?case by simp
next
  case (Cons k ks)
  have "foldl press_key tr (k # ks) = foldl press_key (press_key tr k) ks" by simp
  also have "\<dots> = press_key tr k @ concat (map (press_key []) ks)" by (rule Cons.IH)
  also have "\<dots> = tr @ concat (map (press_key []) (k # ks))"
    using press_key_append [of tr k] by simp
  finally show ?case .
qed

lemma Keypress_append: "Keypress tr ks = tr @ Keypress [] ks"
  by (simp add: Keypress_def foldl_press_key [of tr] foldl_press_key [of "[]"])

lemma perform_append: "perform tr a = tr @ perform [] a"
  using Keypress_append [of tr] by (simp add: perform_def Type_def Click_def Scroll_def)

lemma computerCall_failed:
  "page_screenshot e (perform tr a) = Inl err \<Longrightarrow>
   computerCall e tr a =
     (perform tr a @ [TakeScreenshot],
      Inl (Wrapf ''error taking screenshot'' (Wrapf ''error taking screenshot'' err)))"
  by (simp add: computerCall_def Screenshot_def)

lemma computerCall_captured:
  "page_screenshot e (perform tr a) = Inr s \<Longrightarrow>
   computerCall e tr a =
     (perform tr a @ [TakeScreenshot, MustInfo],
      Inr \<lparr>co_Type = ''input_image'', co_ImageURL = dataURL s,
           co_CurrentURL = page_url e (perform tr a @ [TakeScreenshot])\<rparr>)"
  by (simp add: computerCall_def Screenshot_def GetCurrentUrl_def)

lemma computerCall_error_iff:
  "(\<exists>err. snd (computerCall e tr a) = Inl err) \<longleftrightarrow> (\<exists>err. page_screenshot e (perform tr a) = Inl err)"
  by (cases "page_screenshot e (perform tr a)") (simp_all add: computerCall_failed computerCall_captured)

lemma output_loop_capture_failed:
  assumes "out_Action item = Some a" and "page_screenshot e (perform tr a) = Inl err"
  shows "output_loop e (item # rest) tr vs =
     (perform tr a @ [TakeScreenshot],
      Inl (Returned (Wrapf ''error executing browser action''
        (Wrapf ''error taking screenshot'' (Wrapf ''error taking screenshot'' err)))))"
  using assms by (simp add: dispatch_item_def computerCall_failed)

text \<open>
  Claim C6. Whatever the kind of the action, the dispatcher performs its
  primitives, takes one screenshot after them and then reads the location (by
  the driver's \<^verbatim>\<open>MustInfo\<close>, which is taken to return). It
  returns an error exactly when that screenshot fails; otherwise it returns the
  Observation made of this screenshot and this location. The failed capture is
  not tried again (one \<open>TakeScreenshot\<close> event), and the scan over the response
  hands the error on as the return of the run.
\<close>

theorem computerCall_observation:
  "((\<exists>err. snd (computerCall e tr action) = Inl err)
      \<longleftrightarrow> (\<exists>err. page_screenshot e (perform tr action) = Inl err))
   \<and> (\<forall>s. page_screenshot e (perform tr action) = Inr s \<longrightarrow>
          computerCall e tr action =
            (perform tr action @ [TakeScreenshot, MustInfo],
             Inr \<lparr>co_Type = ''input_image'', co_ImageURL = dataURL s,
                  co_CurrentURL = page_url e (perform tr action @ [TakeScreenshot])\<rparr>))
   \<and> (\<forall>err. page_screenshot e (perform tr action) = Inl err \<longrightarrow>
          computerCall e tr action =
            (perform tr action @ [TakeScreenshot],
             Inl (Wrapf ''error taking screenshot'' (Wrapf ''error taking screenshot'' err)))
          \<and> (\<forall>item rest vs. out_Action item = Some action \<longrightarrow>
                output_loop e (item # rest) tr vs =
                  (perform tr action @ [TakeScreenshot],
                   Inl (Returned (Wrapf ''error executing browser action''
                     (Wrapf ''error taking screenshot'' (Wrapf ''error taking screenshot'' err)))))))"
proof (intro conjI allI impI)
  show "(\<exists>err. snd (computerCall e tr action) = Inl err)
      \<longleftrightarrow> (\<exists>err. page_screenshot e (perform tr action) = Inl err)"
    by (rule computerCall_error_iff)
next
  fix s
  assume "page_screenshot e (perform tr action) = Inr s"
  then show "computerCall e tr action =
      (perform tr action @ [TakeScreenshot, MustInfo],
       Inr \<lparr>co_Type = ''input_image'', co_ImageURL = dataURL s,
            co_CurrentURL = page_url e (perform tr action @ [TakeScreenshot])\<rparr>)"
    by (rule computerCall_captured)
next
  fix err
  assume "page_screenshot e (perform tr action) = Inl err"
  then show "computerCall e tr action =
      (perform tr action @ [TakeScreenshot],
       Inl (Wrapf ''error taking screenshot'' (Wrapf ''error taking screenshot'' err)))"
    by (rule computerCall_failed)
next
  fix err and item :: OutputItem and rest and vs :: vars
  assume failed: "page_screenshot e (perform tr action) = Inl err"
    and called: "out_Action item = Some action"
  show "output_loop e (item # rest) tr vs =
      (perform tr action @ [TakeScreenshot],
       Inl (Returned (Wrapf ''error executing browser action''
         (Wrapf ''error taking screenshot'' (Wrapf ''error taking screenshot'' err)))))"
    using called failed by (rule output_loop_capture_failed)
qed

theorem computerCall_observation_witness:
  "computerCall (fake_env two_clicks) [] (click_at 1 2) =
     ([MoveTo 1 2, MouseDown ''left'', MouseUp ''left'', WaitStable, TakeScreenshot, MustInfo],
      Inr \<lparr>co_Type = ''input_image'', co_ImageURL = ''data:image/png;base64,TWFu'',
           co_CurrentURL = ''http://example.test/''\<rparr>)
   \<and> computerCall (blind_env two_clicks) [] (click_at 1 2) =
     ([MoveTo 1 2, MouseDown ''left'', MouseUp ''left'', WaitStable, TakeScreenshot],
      Inl (Wrapf ''error taking screenshot''
        (Wrapf ''error taking screenshot'' (External ''target closed''))))
   \<and> output_loop (blind_env two_clicks) [call_item ''c1'' (click_at 1 2)] []
         \<lparr>responseID = ''r1'', callID = '''', callResp = None\<rparr> =
     ([MoveTo 1 2, MouseDown ''left'', MouseUp ''left'', WaitStable, TakeScreenshot],
      Inl (Returned (Wrapf ''error executing browser action'' (Wrapf ''error taking screenshot''
        (Wrapf ''error taking screenshot'' (External ''target closed''))))))"
  using computerCall_observation [of "fake_env two_clicks" "[]" "click_at 1 2"]
    computerCall_observation [of "blind_env two_clicks" "[]" "click_at 1 2"]
  by (simp add: fake_env_def blind_env_def click_at_def no_action_def perform_def Click_def
      dataURL_def b64_digit_def call_item_def no_item_def del: output_loop.simps)

text \<open>
  Claim C7. An action whose kind is none of screenshot, type, click, scroll,
  keypress and wait makes the dispatcher call no browser primitive: the trace is
  left as it is, and what follows is the capture every kind gets, so the call
  gives what the plain \<^verbatim>\<open>screenshot\<close> kind gives. The Observation is returned
  whenever the screenshot is taken, the scan goes on with it, and the only error
  there can be is the one of a failed capture.
\<close>

theorem unknown_kind_is_noop:
  assumes "act_Type action \<notin> {''screenshot'', ''type'', ''click'', ''scroll'', ''keypress'', ''wait''}"
  shows "perform tr action = tr
    \<and> computerCall e tr action = computerCall e tr (action\<lparr>act_Type := ''screenshot''\<rparr>)
    \<and> (\<forall>s. page_screenshot e tr = Inr s \<longrightarrow>
          computerCall e tr action =
            (tr @ [TakeScreenshot, MustInfo],
             Inr \<lparr>co_Type = ''input_image'', co_ImageURL = dataURL s,
                  co_CurrentURL = page_url e (tr @ [TakeScreenshot])\<rparr>))
    \<and> ((\<exists>err. snd (computerCall e tr action) = Inl err) \<longleftrightarrow> (\<exists>err. page_screenshot e tr = Inl err))
    \<and> (\<forall>s (item :: OutputItem) (vs :: vars).
          page_screenshot e tr = Inr s \<and> out_Action item = Some action \<longrightarrow>
          snd (dispatch_item e item tr vs) =
            Inr (vs\<lparr>callResp := Some \<lparr>co_Type = ''input_image'', co_ImageURL = dataURL s,
                                       co_CurrentURL = page_url e (tr @ [TakeScreenshot])\<rparr>,
                    callID := out_CallID item\<rparr>))"
proof -
  have same: "perform tr action = tr"
    using assms by (simp add: perform_def)
  have shot: "perform tr (action\<lparr>act_Type := ''screenshot''\<rparr>) = tr"
    by (simp add: perform_def)
  have "computerCall e tr action = computerCall e tr (action\<lparr>act_Type := ''screenshot''\<rparr>)"
    by (simp add: computerCall_def same shot)
  moreover have "\<forall>s. page_screenshot e tr = Inr s \<longrightarrow>
      computerCall e tr action =
        (tr @ [TakeScreenshot, MustInfo],
         Inr \<lparr>co_Type = ''input_image'', co_ImageURL = dataURL s,
              co_CurrentURL = page_url e (tr @ [TakeScreenshot])\<rparr>)"
    using computerCall_captured [of e tr action] by (simp add: same)
  moreover have "(\<exists>err. snd (computerCall e tr action) = Inl err)
      \<longleftrightarrow> (\<exists>err. page_screenshot e tr = Inl err)"
    using computerCall_error_iff [of e tr action] by (simp add: same)
  moreover have "\<forall>s (item :: OutputItem) (vs :: vars).
      page_screenshot e tr = Inr s \<and> out_Action item = Some action \<longrightarrow>
      snd (dispatch_item e item tr vs) =
        Inr (vs\<lparr>callResp := Some \<lparr>co_Type = ''input_image'', co_ImageURL = dataURL s,
                                   co_CurrentURL = page_url e (tr @ [TakeScreenshot])\<rparr>,
                callID := out_CallID item\<rparr>)"
    using computerCall_captured [of e tr action] by (simp add: same dispatch_item_def)
  ultimately show ?thesis
    using same by simp
qed

theorem unknown_kind_is_noop_witness:
  "act_Type drag = ''drag''
   \<and> perform [MoveTo 1 2] drag = [MoveTo 1 2]
   \<and> computerCall (fake_env two_clicks) [MoveTo 1 2] drag =
       ([MoveTo 1 2, TakeScreenshot, MustInfo],
        Inr \<lparr>co_Type = ''input_image'', co_ImageURL = ''data:image/png;base64,TWFu'',
             co_CurrentURL = ''http://example.test/''\<rparr>)"
  using unknown_kind_is_noop [of drag "[MoveTo 1 2]" "fake_env two_clicks"]
  by (simp add: drag_def no_action_def fake_env_def dataURL_def b64_digit_def computerCall_def
      perform_def Screenshot_def GetCurrentUrl_def)

lemma press_key_same_lower:
  "ToLower k = ToLower k' \<Longrightarrow>
   ToLower k \<in> {''enter'', ''return'', ''delete'', ''tab'', ''escape'', ''left'', ''right'',
                 ''up'', ''down'', ''page_up'', ''page_down''} \<Longrightarrow>
   press_key tr k' = press_key tr k"
  by (auto simp add: press_key_def Let_def)

lemma press_key_unknown:
  "ToLower k \<notin> {''enter'', ''return'', ''delete'', ''tab'', ''escape'', ''left'', ''right'',
                 ''up'', ''down'', ''page_up'', ''page_down''} \<Longrightarrow>
   press_key tr k = tr @ [Stdout (''key: '' @ k @ '' is not implemented'')]"
  by (simp add: press_key_def Let_def)

lemma Keypress_events: "Keypress tr ks = tr @ concat (map (press_key []) ks) @ [WaitStable]"
  by (simp add: Keypress_def foldl_press_key [of tr])

text \<open>
  Claim C9. The switch of \<^verbatim>\<open>Keypress\<close> reads the lowered name, so two names that
  differ only in the case of their letters press the same key, and both
  \<^verbatim>\<open>enter\<close> and \<^verbatim>\<open>return\<close> press \<open>Enter\<close>. A name outside the table adds
  one line on standard output and nothing else: the keys before it and after it
  in the batch are pressed as they would be without it.
\<close>

theorem Keypress_names:
  "(ToLower k = ToLower k' \<and>
      ToLower k \<in> {''enter'', ''return'', ''delete'', ''tab'', ''escape'', ''left'', ''right'',
                    ''up'', ''down'', ''page_up'', ''page_down''} \<longrightarrow>
      press_key tr k' = press_key tr k)
   \<and> (ToLower k = ''enter'' \<or> ToLower k = ''return'' \<longrightarrow> press_key tr k = tr @ [Press Enter])
   \<and> (ToLower k \<notin> {''enter'', ''return'', ''delete'', ''tab'', ''escape'', ''left'', ''right'',
                    ''up'', ''down'', ''page_up'', ''page_down''} \<longrightarrow>
        Keypress tr (before @ k # after) =
          tr @ concat (map (press_key []) before)
             @ [Stdout (''key: '' @ k @ '' is not implemented'')]
             @ concat (map (press_key []) after) @ [WaitStable])"
proof (intro conjI impI)
  assume "ToLower k = ToLower k' \<and>
      ToLower k \<in> {''enter'', ''return'', ''delete'', ''tab'', ''escape'', ''left'', ''right'',
                    ''up'', ''down'', ''page_up'', ''page_down''}"
  then show "press_key tr k' = press_key tr k"
    using press_key_same_lower [of k k' tr] by blast
next
  assume "ToLower k = ''enter'' \<or> ToLower k = ''return''"
  then show "press_key tr k = tr @ [Press Enter]"
    by (auto simp add: press_key_def Let_def)
next
  assume "ToLower k \<notin> {''enter'', ''return'', ''delete'', ''tab'', ''escape'', ''left'', ''right'',
                    ''up'', ''down'', ''page_up'', ''page_down''}"
  then have "press_key [] k = [Stdout (''key: '' @ k @ '' is not implemented'')]"
    using press_key_unknown [of k "[]"] by simp
  then show "Keypress tr (before @ k # after) =
      tr @ concat (map (press_key []) before)
         @ [Stdout (''key: '' @ k @ '' is not implemented'')]
         @ concat (map (press_key []) after) @ [WaitStable]"
    by (simp add: Keypress_events)
qed

lemma ToLower_examples:
  "ToLower ''Enter'' = ''enter''" "ToLower ''enter'' = ''enter''"
  "ToLower ''RETURN'' = ''return''" "ToLower ''return'' = ''return''"
  "ToLower ''foobar'' = ''foobar''" "ToLower ''Tab'' = ''tab''"
  by code_simp+

theorem Keypress_names_witness:
  "press_key [] ''Enter'' = [Press Enter]
   \<and> press_key [] ''RETURN'' = [Press Enter]
   \<and> press_key [] ''return'' = press_key [] ''Enter''
   \<and> Keypress [] [''Enter'', ''foobar'', ''Tab''] =
       [Press Enter, Stdout ''key: foobar is not implemented'', Press Tab, WaitStable]"
  using Keypress_names [of "''Enter''" "''enter''" "[]" "[]" "[]"]
    Keypress_names [of "''RETURN''" "''return''" "[]" "[]" "[]"]
    Keypress_names [of "''return''" "''return''" "[]" "[]" "[]"]
    Keypress_names [of "''foobar''" "''foobar''" "[]" "[''Enter'']" "[''Tab'']"]
  by (simp add: ToLower_examples press_key_def)

subsection \<open>Cancellation\<close>

lemma computerCall_ignores_ctx: "computerCall (e\<lparr>ctx_done := d\<rparr>) tr a = computerCall e tr a"
  by (simp add: computerCall_def Screenshot_def GetCurrentUrl_def split: sum.splits)

lemma dispatch_item_ignores_ctx:
  "dispatch_item (e\<lparr>ctx_done := d\<rparr>) item tr vs = dispatch_item e item tr vs"
  by (simp add: dispatch_item_def computerCall_ignores_ctx split: option.splits)

lemma output_loop_ignores_ctx:
  "output_loop (e\<lparr>ctx_done := d\<rparr>) items tr vs = output_loop e items tr vs"
  by (induction items arbitrary: tr vs)
    (simp_all add: dispatch_item_ignores_ctx split: prod.splits sum.splits option.splits)

lemma Responses_ignores_ctx:
  "Responses (e\<lparr>ctx_done := d\<rparr>) tr m rid input = Responses e tr m rid input"
  by (simp add: Responses_def)

lemma turn_ignores_ctx: "turn (e\<lparr>ctx_done := d\<rparr>) instruction tr vs = turn e instruction tr vs"
  by (simp add: turn_def Responses_ignores_ctx output_loop_ignores_ctx
      split: prod.splits sum.splits)

text \<open>
  Claim C8. An iteration starts with the test of \<^verbatim>\<open>ctx.Done()\<close>: when the
  context is done, the loop returns the error \<^verbatim>\<open>context canceled\<close> at once,
  whatever the remaining budget, and the trace is unchanged, so no request was
  sent and no action executed. When it is not done the whole turn runs. The
  turn itself, and the dispatcher in it, never read the context: with any other
  cancellation signal they do the same.
\<close>

theorem cancellation_at_turn_start:
  "(i < maxTurns \<and> ctx_done e tr \<longrightarrow>
      for_loop e instruction maxTurns i tr vs = (tr, Returned (Errorf ''context canceled'')))
   \<and> (i < maxTurns \<and> \<not> ctx_done e tr \<longrightarrow>
      for_loop e instruction maxTurns i tr vs =
        (case turn e instruction tr vs of
           (tr1, Inl out) \<Rightarrow> (tr1, out)
         | (tr1, Inr vs1) \<Rightarrow> for_loop e instruction maxTurns (i + 1) tr1 vs1))
   \<and> turn (e\<lparr>ctx_done := d\<rparr>) instruction tr vs = turn e instruction tr vs
   \<and> computerCall (e\<lparr>ctx_done := d\<rparr>) tr action = computerCall e tr action"
proof (intro conjI impI)
  assume "i < maxTurns \<and> ctx_done e tr"
  then show "for_loop e instruction maxTurns i tr vs = (tr, Returned (Errorf ''context canceled''))"
    by (simp add: for_loop.simps [of e instruction maxTurns i tr vs])
next
  assume "i < maxTurns \<and> \<not> ctx_done e tr"
  then show "for_loop e instruction maxTurns i tr vs =
      (case turn e instruction tr vs of
         (tr1, Inl out) \<Rightarrow> (tr1, out)
       | (tr1, Inr vs1) \<Rightarrow> for_loop e instruction maxTurns (i + 1) tr1 vs1)"
    by (simp add: for_loop.simps [of e instruction maxTurns i tr vs])
next
  show "turn (e\<lparr>ctx_done := d\<rparr>) instruction tr vs = turn e instruction tr vs"
    by (rule turn_ignores_ctx)
next
  show "computerCall (e\<lparr>ctx_done := d\<rparr>) tr action = computerCall e tr action"
    by (rule computerCall_ignores_ctx)
qed

lemmas run_defs =
  BrowserUse_def NewBrowser_def Open_def Close_def turn_def Responses_def build_messages_def
  model_def dispatch_item_def computerCall_def perform_def Click_def Screenshot_def
  GetCurrentUrl_def dataURL_def b64_digit_def newline_def initial_vars_def

lemmas fake_defs =
  fake_env_def no_action_def click_at_def no_item_def call_item_def message_item_def
  reasoning_item_def respond_def

theorem cancellation_at_turn_start_witness:
  "for_loop (cancelled_env two_clicks) ''goal'' 16 0 [Connect] initial_vars =
     ([Connect], Returned (Errorf ''context canceled''))
   \<and> for_loop (fake_env says_hello) ''goal'' 16 0 [Connect] initial_vars =
     ([Connect,
       Post \<lparr>req_Model = ''computer-use-preview-2025-03-11'', req_Input = [user_message ''goal''],
             req_Tools = [\<lparr>tool_Type = ''computer-preview'', tool_DisplayWidth = 1024,
                           tool_DisplayHeight = 768, tool_Environment = ''browser''\<rparr>],
             req_Truncation = ''auto'', req_PreviousResponseID = ''''\<rparr>,
       Stdout (''Final output: hello'' @ newline)],
      Broke ''hello'')"
  using cancellation_at_turn_start [of 0 16 "cancelled_env two_clicks" "[Connect]" "''goal''" initial_vars]
    cancellation_at_turn_start [of 0 16 "fake_env says_hello" "[Connect]" "''goal''" initial_vars]
  by (simp add: run_defs fake_defs cancelled_env_def says_hello_def user_message_def)

subsection \<open>Leaving the loop\<close>

lemma for_loop_done: "\<not> i < maxTurns \<Longrightarrow> for_loop e instruction maxTurns i tr vs = (tr, Ran_out)"
  by (simp add: for_loop.simps [of e instruction maxTurns i tr vs])

lemma for_loop_cancelled:
  "i < maxTurns \<Longrightarrow> ctx_done e tr \<Longrightarrow>
   for_loop e instruction maxTurns i tr vs = (tr, Returned (Errorf ''context canceled''))"
  by (simp add: for_loop.simps [of e instruction maxTurns i tr vs])

lemma for_loop_left:
  "i < maxTurns \<Longrightarrow> \<not> ctx_done e tr \<Longrightarrow> turn e instruction tr vs = (tr1, Inl out) \<Longrightarrow>
   for_loop e instruction maxTurns i tr vs = (tr1, out)"
  by (simp add: for_loop.simps [of e instruction maxTurns i tr vs])

lemma for_loop_next:
  "i < maxTurns \<Longrightarrow> \<not> ctx_done e tr \<Longrightarrow> turn e instruction tr vs = (tr1, Inr vs1) \<Longrightarrow>
   for_loop e instruction maxTurns i tr vs = for_loop e instruction maxTurns (i + 1) tr1 vs1"
  by (simp add: for_loop.simps [of e instruction maxTurns i tr vs])

lemma output_loop_empty_content:
  assumes "out_Action item = None" and "out_Role item = ''assistant''" and "out_Content item = Some []"
  shows "output_loop e (item # rest) tr vs = (tr, Inl Panicked)"
  using assms by (simp add: dispatch_item_def)

text \<open>
  Claim C10. There is a response with an assistant item whose content list is
  present and empty: the one item \<open>message_item []\<close>. On it the scan indexes
  \<^verbatim>\<open>o.Content[0]\<close> out of range, so the run of the working fake with this
  response, a budget of one turn, panics after its first request: it returns
  neither nil nor an error. (The deferred close still runs.)
\<close>

theorem empty_content_panics:
  "out_Role (message_item []) = ''assistant''
   \<and> out_Content (message_item []) = Some []
   \<and> BrowserUse (fake_env empty_content) ''http://example.test/'' ''goal'' 1 =
       ([Connect, CreateTarget ''http://example.test/'', SetViewport 1024 768, WaitStable,
         Post \<lparr>req_Model = ''computer-use-preview-2025-03-11'', req_Input = [user_message ''goal''],
               req_Tools = [\<lparr>tool_Type = ''computer-preview'', tool_DisplayWidth = 1024,
                             tool_DisplayHeight = 768, tool_Environment = ''browser''\<rparr>],
               req_Truncation = ''auto'', req_PreviousResponseID = ''''\<rparr>,
         MustClose],
        Panicked)
   \<and> result (snd (BrowserUse (fake_env empty_content) ''http://example.test/'' ''goal'' 1)) = Panic"
  by (simp add: run_defs fake_defs empty_content_def user_message_def result_def
      for_loop.simps [of _ _ 1 0])

subsection \<open>What the loop adds to the trace\<close>

lemma page_events_no_close: "list_all page_event evs \<Longrightarrow> count_list evs MustClose = 0"
  by (induction evs) (auto simp add: page_event_def split: event.splits)

lemma page_events_no_request: "list_all page_event evs \<Longrightarrow> requests evs = []"
  by (induction evs) (auto simp add: page_event_def requests_def split: event.splits)

lemma requests_append: "requests (tr @ evs) = requests tr @ requests evs"
  by (simp add: requests_def)

lemma page_event_simps [simp]:
  "\<not> page_event Connect" "\<not> page_event (CreateTarget url)" "\<not> page_event MustClose"
  "\<not> page_event (Post request)"
  "page_event (SetViewport w h)" "page_event WaitStable" "page_event TakeScreenshot"
  "page_event MustInfo" "page_event (InsertText text)" "page_event (Press key)"
  "page_event (MoveTo x y)" "page_event (MouseDown button)" "page_event (MouseUp button)"
  "page_event (MouseScroll dx dy)" "page_event (Stdout line)" "page_event (Sleep ms)"
  by (simp_all add: page_event_def)

lemma press_key_page_events: "list_all page_event (press_key [] k)"
  by (simp add: press_key_def Let_def)

lemma Keypress_page_events: "list_all page_event (Keypress [] ks)"
  using press_key_page_events by (auto simp add: Keypress_events list_all_iff)

lemma perform_page_events: "list_all page_event (perform [] a)"
  using Keypress_page_events [of "act_Keys a"]
  by (simp add: perform_def Type_def Click_def Scroll_def)

lemma computerCall_adds:
  "\<exists>evs. fst (computerCall e tr a) = tr @ evs \<and> list_all page_event evs"
proof (cases "page_screenshot e (perform tr a)")
  case (Inl err)
  then have "fst (computerCall e tr a) = tr @ (perform [] a @ [TakeScreenshot])"
    using perform_append [of tr a] by (simp add: computerCall_failed)
  moreover have "list_all page_event (perform [] a @ [TakeScreenshot])"
    using perform_page_events [of a] by simp
  ultimately show ?thesis by blast
next
  case (Inr s)
  then have "fst (computerCall e tr a) = tr @ (perform [] a @ [TakeScreenshot, MustInfo])"
    using perform_append [of tr a] by (simp add: computerCall_captured)
  moreover have "list_all page_event (perform [] a @ [TakeScreenshot, MustInfo])"
    using perform_page_events [of a] by simp
  ultimately show ?thesis by blast
qed

lemma dispatch_item_adds:
  "\<exists>evs. fst (dispatch_item e item tr vs) = tr @ evs \<and> list_all page_event evs"
proof (cases "out_Action item")
  case None
  then have "fst (dispatch_item e item tr vs) = tr @ []"
    by (simp add: dispatch_item_def)
  then show ?thesis by force
next
  case (Some a)
  obtain evs where evs: "fst (computerCall e tr a) = tr @ evs" "list_all page_event evs"
    using computerCall_adds [of e tr a] by blast
  obtain tr1 r where call: "computerCall e tr a = (tr1, r)"
    by (cases "computerCall e tr a")
  with evs have tr1: "tr1 = tr @ evs" by simp
  show ?thesis
  proof (cases r)
    case (Inl err)
    with Some call tr1 have "fst (dispatch_item e item tr vs) = tr @ evs"
      by (simp add: dispatch_item_def)
    with evs(2) show ?thesis by blast
  next
    case (Inr out)
    let ?line = "Stdout (''pending safety checks: ''
      @ show_checks (out_PendingSafetyChecks item) @ newline)"
    from Inr Some call tr1 have "fst (dispatch_item e item tr vs) =
        tr @ (evs @ (if out_PendingSafetyChecks item \<noteq> [] then [?line] else []))"
      by (simp add: dispatch_item_def)
    moreover have "list_all page_event
        (evs @ (if out_PendingSafetyChecks item \<noteq> [] then [?line] else []))"
      using evs(2) by simp
    ultimately show ?thesis by blast
  qed
qed

lemma output_loop_adds:
  "\<exists>evs. fst (output_loop e items tr vs) = tr @ evs \<and> list_all page_event evs"
proof (induction items arbitrary: tr vs)
  case Nil
  have "fst (output_loop e [] tr vs) = tr @ []" by simp
  then show ?case by force
next
  case (Cons item rest)
  obtain evs where evs: "fst (dispatch_item e item tr vs) = tr @ evs" "list_all page_event evs"
    using dispatch_item_adds [of e item tr vs] by blast
  obtain tr1 r where step: "dispatch_item e item tr vs = (tr1, r)"
    by (cases "dispatch_item e item tr vs")
  with evs have tr1: "tr1 = tr @ evs" by simp
  show ?case
  proof (cases r)
    case (Inl err)
    with step tr1 have "fst (output_loop e (item # rest) tr vs) = tr @ evs" by simp
    with evs(2) show ?thesis by blast
  next
    case (Inr vs1)
    obtain more where more: "fst (output_loop e rest tr1 vs1) = tr1 @ more"
        "list_all page_event more"
      using Cons.IH [of tr1 vs1] by blast
    have "fst (output_loop e (item # rest) tr vs) = tr1
        \<or> fst (output_loop e (item # rest) tr vs) = fst (output_loop e rest tr1 vs1)"
      using step Inr by (simp split: option.splits list.splits)
    then show ?thesis
    proof
      assume "fst (output_loop e (item # rest) tr vs) = tr1"
      with tr1 evs(2) show ?thesis by blast
    next
      assume "fst (output_loop e (item # rest) tr vs) = fst (output_loop e rest tr1 vs1)"
      with more tr1 have "fst (output_loop e (item # rest) tr vs) = tr @ (evs @ more)" by simp
      moreover have "list_all page_event (evs @ more)"
        using evs(2) more(2) by simp
      ultimately show ?thesis by blast
    qed
  qed
qed

lemma Responses_no_key:
  "getenv e ''OPENAI_API_KEY'' = '''' \<Longrightarrow>
   Responses e tr model rid input =
     (tr, Inl (Errorf ''OPENAI_API_KEY environment variable is not set''))"
  by (simp add: Responses_def)

lemma Responses_posts:
  "getenv e ''OPENAI_API_KEY'' \<noteq> '''' \<Longrightarrow>
   fst (Responses e tr model rid input) = tr @ [Post (request_of rid input)]"
  by (simp add: Responses_def request_of_def Let_def split: http_reply.splits sum.splits)

lemma Responses_answered:
  assumes "Responses e tr model rid input = (tr1, Inr response)"
  shows "tr1 = tr @ [Post (request_of rid input)]"
proof -
  have "getenv e ''OPENAI_API_KEY'' \<noteq> ''''"
    using assms Responses_no_key [of e tr rid input] by auto
  then show ?thesis
    using assms Responses_posts [of e tr rid input] by simp
qed

lemma turn_continues:
  assumes "turn e instruction tr vs = (tr', Inr vs')"
  shows "\<exists>evs. tr' = tr @ Post (request_of (responseID vs) (build_messages instruction vs)) # evs
    \<and> list_all page_event evs"
proof -
  let ?input = "build_messages instruction vs"
  obtain tr1 r where sent: "Responses e tr model (responseID vs) ?input = (tr1, r)"
    by (cases "Responses e tr model (responseID vs) ?input")
  from assms sent obtain response where r: "r = Inr response"
    by (cases r) (simp_all add: turn_def)
  with sent have tr1: "tr1 = tr @ [Post (request_of (responseID vs) ?input)]"
    using Responses_answered by simp
  let ?vs = "vs\<lparr>responseID := resp_ID response\<rparr>"
  obtain evs where evs: "fst (output_loop e (resp_Output response) tr1 ?vs) = tr1 @ evs"
      "list_all page_event evs"
    using output_loop_adds [of e "resp_Output response" tr1 ?vs] by blast
  obtain tr2 s where scan: "output_loop e (resp_Output response) tr1 ?vs = (tr2, s)"
    by (cases "output_loop e (resp_Output response) tr1 ?vs")
  with evs have tr2: "tr2 = tr1 @ evs" by simp
  from assms sent r scan have "tr' = tr2 @ [Sleep 1000]"
    by (cases s) (auto simp add: turn_def split: if_splits)
  with tr1 tr2 have "tr' = tr @ Post (request_of (responseID vs) ?input) # (evs @ [Sleep 1000])"
    by simp
  moreover have "list_all page_event (evs @ [Sleep 1000])"
    using evs(2) by simp
  ultimately show ?thesis by blast
qed

lemma turn_no_close: "count_list (fst (turn e instruction tr vs)) MustClose = count_list tr MustClose"
proof -
  let ?input = "build_messages instruction vs"
  obtain tr1 r where sent: "Responses e tr model (responseID vs) ?input = (tr1, r)"
    by (cases "Responses e tr model (responseID vs) ?input")
  have "tr1 = tr \<or> tr1 = tr @ [Post (request_of (responseID vs) ?input)]"
    using sent Responses_no_key [of e tr "responseID vs" ?input]
      Responses_posts [of e tr "responseID vs" ?input]
    by (cases "getenv e ''OPENAI_API_KEY'' = ''''") auto
  then have tr1: "count_list tr1 MustClose = count_list tr MustClose"
    by auto
  show ?thesis
  proof (cases r)
    case (Inl err)
    with sent tr1 show ?thesis by (simp add: turn_def)
  next
    case (Inr response)
    let ?vs = "vs\<lparr>responseID := resp_ID response\<rparr>"
    obtain evs where evs: "fst (output_loop e (resp_Output response) tr1 ?vs) = tr1 @ evs"
        "list_all page_event evs"
      using output_loop_adds [of e "resp_Output response" tr1 ?vs] by blast
    obtain tr2 s where scan: "output_loop e (resp_Output response) tr1 ?vs = (tr2, s)"
      by (cases "output_loop e (resp_Output response) tr1 ?vs")
    with evs have "tr2 = tr1 @ evs" by simp
    with tr1 evs(2) have tr2: "count_list tr2 MustClose = count_list tr MustClose"
      by (simp add: page_events_no_close)
    from sent Inr scan have "\<exists>ev. page_event ev \<and> fst (turn e instruction tr vs) = tr2 @ [ev]
        \<or> fst (turn e instruction tr vs) = tr2"
      by (cases s) (auto simp add: turn_def)
    then show ?thesis
      using tr2 by auto
  qed
qed

lemma for_loop_no_close:
  "count_list (fst (for_loop e instruction maxTurns i tr vs)) MustClose = count_list tr MustClose"
proof (induction "nat (maxTurns - i)" arbitrary: i tr vs)
  case 0
  then have "\<not> i < maxTurns" by simp
  then show ?case by (simp add: for_loop_done)
next
  case (Suc n)
  then have less: "i < maxTurns" and n: "n = nat (maxTurns - (i + 1))" by simp_all
  show ?case
  proof (cases "ctx_done e tr")
    case True
    with less show ?thesis by (simp add: for_loop_cancelled)
  next
    case False
    obtain tr1 r where step: "turn e instruction tr vs = (tr1, r)"
      by (cases "turn e instruction tr vs")
    have tr1: "count_list tr1 MustClose = count_list tr MustClose"
      using turn_no_close [of e instruction tr vs] step by simp
    show ?thesis
    proof (cases r)
      case (Inl out)
      with less False step tr1 show ?thesis by (simp add: for_loop_left)
    next
      case (Inr vs1)
      with less False step have "for_loop e instruction maxTurns i tr vs
          = for_loop e instruction maxTurns (i + 1) tr1 vs1"
        by (simp add: for_loop_next)
      with Suc.hyps(1) [OF n, of tr1 vs1] tr1 show ?thesis by simp
    qed
  qed
qed

lemma requests_Post: "requests (Post request # evs) = request # requests evs"
  by (simp add: requests_def)

lemma output_loop_leaves:
  "output_loop e items tr vs = (tr', Inl out) \<Longrightarrow> out = Panicked \<or> (\<exists>err. out = Returned err)"
  by (induction items arbitrary: tr vs)
    (auto split: prod.splits sum.splits option.splits if_splits list.splits)

lemma turn_leaves:
  assumes "turn e instruction tr vs = (tr', Inl out)"
  shows "out \<noteq> Ran_out"
proof
  assume "out = Ran_out"
  with assms obtain tr1 and response :: Response where
    "output_loop e (resp_Output response) tr1 (vs\<lparr>responseID := resp_ID response\<rparr>)
       = (tr', Inl Ran_out)"
    by (auto simp add: turn_def split: prod.splits sum.splits if_splits)
  then show False
    using output_loop_leaves by blast
qed

lemma for_loop_ran_out:
  "for_loop e instruction maxTurns i tr vs = (tr', Ran_out) \<Longrightarrow>
   length (requests tr') = length (requests tr) + nat (maxTurns - i)"
proof (induction "nat (maxTurns - i)" arbitrary: i tr vs)
  case 0
  then have "\<not> i < maxTurns" by simp
  with 0 show ?case by (simp add: for_loop_done)
next
  case (Suc n)
  then have less: "i < maxTurns" and n: "n = nat (maxTurns - (i + 1))" by simp_all
  have live: "\<not> ctx_done e tr"
    using Suc.prems less for_loop_cancelled [of i maxTurns e tr instruction vs] by auto
  obtain tr1 r where step: "turn e instruction tr vs = (tr1, r)"
    by (cases "turn e instruction tr vs")
  show ?case
  proof (cases r)
    case (Inl out)
    with less live step Suc.prems have "out = Ran_out" and r: "turn e instruction tr vs = (tr1, Inl Ran_out)"
      by (simp_all add: for_loop_left)
    from r have False
      using turn_leaves by blast
    then show ?thesis ..
  next
    case (Inr vs1)
    with less live step have "for_loop e instruction maxTurns i tr vs
        = for_loop e instruction maxTurns (i + 1) tr1 vs1"
      by (simp add: for_loop_next)
    with Suc.prems have "for_loop e instruction maxTurns (i + 1) tr1 vs1 = (tr', Ran_out)" by simp
    from Suc.hyps(1) [OF n this]
    have later: "length (requests tr') = length (requests tr1) + nat (maxTurns - (i + 1))" .
    obtain evs where evs:
        "tr1 = tr @ Post (request_of (responseID vs) (build_messages instruction vs)) # evs"
        "list_all page_event evs"
      using turn_continues step Inr by blast
    have "length (requests tr1) = length (requests tr) + 1"
      by (simp add: evs(1) requests_append requests_Post page_events_no_request [OF evs(2)])
    with later less show ?thesis by simp
  qed
qed

subsection \<open>Closing the browser\<close>

lemma BrowserUse_opened:
  assumes "page_create e [Connect] url = None"
  shows "BrowserUse e url instruction maxTurns =
    (case for_loop e instruction maxTurns 0
            [Connect, CreateTarget url, SetViewport 1024 768, WaitStable] initial_vars of
       (tr2, out) \<Rightarrow> (tr2 @ [MustClose], out))"
  using assms by (simp add: BrowserUse_def NewBrowser_def Open_def Close_def initial_vars_def)

lemma closed_once_after_open:
  assumes "page_create e [Connect] url = None"
  shows "count_list (fst (BrowserUse e url instruction maxTurns)) MustClose = 1"
proof -
  let ?tr1 = "[Connect, CreateTarget url, SetViewport 1024 768, WaitStable]"
  obtain tr2 out where run: "for_loop e instruction maxTurns 0 ?tr1 initial_vars = (tr2, out)"
    by (cases "for_loop e instruction maxTurns 0 ?tr1 initial_vars")
  have "count_list tr2 MustClose = count_list ?tr1 MustClose"
    using for_loop_no_close [of e instruction maxTurns 0 ?tr1 initial_vars] run by simp
  then have "count_list tr2 MustClose = 0" by simp
  then show ?thesis
    using run by (simp add: BrowserUse_opened [OF assms])
qed

text \<open>
  Claim C3, on the code. When \<^verbatim>\<open>Open\<close> fails, \<^verbatim>\<open>BrowserUse\<close> returns before the
  \<^verbatim>\<open>defer browser.Close()\<close> statement is reached: the browser that
  \<^verbatim>\<open>NewBrowser\<close> connected is never closed. (After a successful \<^verbatim>\<open>Open\<close> every
  way out closes it once: \<open>closed_once_after_open\<close>.)
\<close>

theorem open_failure_leaves_browser_open:
  assumes "page_create e [Connect] url = Some err"
  shows "BrowserUse e url instruction maxTurns =
      ([Connect, CreateTarget url],
       Returned (Wrapf ''error opening browser'' (Wrapf ''error opening page'' err)))
    \<and> count_list (fst (BrowserUse e url instruction maxTurns)) MustClose = 0"
  using assms by (simp add: BrowserUse_def NewBrowser_def Open_def)

theorem open_failure_leaves_browser_open_witness:
  "BrowserUse (unreachable_env says_hello) ''http://nowhere.test/'' ''say hello'' 16 =
      ([Connect, CreateTarget ''http://nowhere.test/''],
       Returned (Wrapf ''error opening browser''
         (Wrapf ''error opening page'' (External ''net::ERR''))))
   \<and> count_list (fst (BrowserUse (unreachable_env says_hello) ''http://nowhere.test/''
        ''say hello'' 16)) MustClose = 0"
  using open_failure_leaves_browser_open
    [of "unreachable_env says_hello" "''http://nowhere.test/''" "External ''net::ERR''" "''say hello''" 16]
  by (simp add: unreachable_env_def fake_env_def)

subsection \<open>Exhausting the turn budget\<close>

lemma dispatch_item_captured:
  assumes "\<forall>tr. \<exists>s. page_screenshot e tr = Inr s"
  shows "\<exists>tr1 vs1. dispatch_item e item tr vs = (tr1, Inr vs1)"
proof (cases "out_Action item")
  case None
  then show ?thesis by (simp add: dispatch_item_def)
next
  case (Some a)
  obtain s where "page_screenshot e (perform tr a) = Inr s"
    using assms by blast
  then show ?thesis
    using Some by (simp add: dispatch_item_def computerCall_captured)
qed

lemma output_loop_no_answer:
  assumes "\<forall>tr. \<exists>s. page_screenshot e tr = Inr s"
    and "list_all (\<lambda>item. \<not> is_answer item) items"
  shows "\<exists>tr' vs'. output_loop e items tr vs = (tr', Inr (vs', ''''))"
  using assms(2)
proof (induction items arbitrary: tr vs)
  case Nil
  show ?case by simp
next
  case (Cons item rest)
  obtain tr1 vs1 where step: "dispatch_item e item tr vs = (tr1, Inr vs1)"
    using dispatch_item_captured [OF assms(1)] by blast
  from Cons.prems have quiet: "\<not> is_answer item" and rest: "list_all (\<lambda>item. \<not> is_answer item) rest"
    by simp_all
  from quiet have "output_loop e (item # rest) tr vs = output_loop e rest tr1 vs1"
    using step by (auto simp add: is_answer_def split: option.splits)
  with Cons.IH [OF rest, of tr1 vs1] show ?case by simp
qed

lemma turn_goes_on:
  assumes key: "getenv e ''OPENAI_API_KEY'' \<noteq> ''''"
    and shots: "\<forall>tr. \<exists>s. page_screenshot e tr = Inr s"
    and replies: "\<forall>tr request. \<exists>body response.
        http_do e tr request = Replied 200 body (Inr response)
        \<and> list_all (\<lambda>item. \<not> is_answer item) (resp_Output response)"
  shows "\<exists>tr' vs'. turn e instruction tr vs = (tr', Inr vs')"
proof -
  let ?request = "request_of (responseID vs) (build_messages instruction vs)"
  obtain body response where reply: "http_do e tr ?request = Replied 200 body (Inr response)"
      and quiet: "list_all (\<lambda>item. \<not> is_answer item) (resp_Output response)"
    using replies by blast
  have sent: "Responses e tr model (responseID vs) (build_messages instruction vs)
      = (tr @ [Post ?request], Inr response)"
    using key reply by (simp add: Responses_def request_of_def Let_def)
  obtain tr2 vs2 where "output_loop e (resp_Output response) (tr @ [Post ?request])
      (vs\<lparr>responseID := resp_ID response\<rparr>) = (tr2, Inr (vs2, ''''))"
    using output_loop_no_answer [OF shots quiet] by blast
  with sent show ?thesis by (simp add: turn_def)
qed

lemma for_loop_exhausts:
  assumes key: "getenv e ''OPENAI_API_KEY'' \<noteq> ''''"
    and live: "\<forall>tr. \<not> ctx_done e tr"
    and shots: "\<forall>tr. \<exists>s. page_screenshot e tr = Inr s"
    and replies: "\<forall>tr request. \<exists>body response.
        http_do e tr request = Replied 200 body (Inr response)
        \<and> list_all (\<lambda>item. \<not> is_answer item) (resp_Output response)"
  shows "snd (for_loop e instruction maxTurns i tr vs) = Ran_out"
proof (induction "nat (maxTurns - i)" arbitrary: i tr vs)
  case 0
  then have "\<not> i < maxTurns" by simp
  then show ?case by (simp add: for_loop_done)
next
  case (Suc n)
  then have less: "i < maxTurns" and n: "n = nat (maxTurns - (i + 1))" by simp_all
  obtain tr1 vs1 where step: "turn e instruction tr vs = (tr1, Inr vs1)"
    using turn_goes_on [OF key shots replies] by blast
  have "for_loop e instruction maxTurns i tr vs = for_loop e instruction maxTurns (i + 1) tr1 vs1"
    using less live step by (simp add: for_loop_next)
  with Suc.hyps(1) [OF n, of tr1 vs1] show ?case by simp
qed

lemma result_nil_iff: "result out = Return_nil \<longleftrightarrow> out = Ran_out \<or> (\<exists>s. out = Broke s)"
  by (cases out) (simp_all add: result_def)

text \<open>
  Claim C2, as the code has it. A run that leaves the loop because the budget is
  used up has sent exactly \<^verbatim>\<open>maxTurns\<close> requests (none for a budget below one)
  and returns nil, which is no error. A working service that never sends an
  assistant item with content, with a working browser and a live context, gives
  such a run for every budget. Nil is returned by this exit and by the exit on a
  final answer, and by no other: the error value does not tell the two apart.
\<close>

theorem exhaustion_returns_nil:
  "(snd (BrowserUse e url instruction maxTurns) = Ran_out \<longrightarrow>
      result (snd (BrowserUse e url instruction maxTurns)) = Return_nil
      \<and> length (requests (fst (BrowserUse e url instruction maxTurns))) = nat maxTurns)
   \<and> (page_create e [Connect] url = None
       \<and> getenv e ''OPENAI_API_KEY'' \<noteq> ''''
       \<and> (\<forall>tr. \<not> ctx_done e tr)
       \<and> (\<forall>tr. \<exists>s. page_screenshot e tr = Inr s)
       \<and> (\<forall>tr request. \<exists>body response.
             http_do e tr request = Replied 200 body (Inr response)
             \<and> list_all (\<lambda>item. \<not> is_answer item) (resp_Output response)) \<longrightarrow>
       snd (BrowserUse e url instruction maxTurns) = Ran_out)
   \<and> (\<forall>out. result out = Return_nil \<longleftrightarrow> out = Ran_out \<or> (\<exists>s. out = Broke s))"
proof (intro conjI impI allI)
  assume ran_out: "snd (BrowserUse e url instruction maxTurns) = Ran_out"
  then show "result (snd (BrowserUse e url instruction maxTurns)) = Return_nil"
    by (simp add: result_def)
  let ?tr1 = "[Connect, CreateTarget url, SetViewport 1024 768, WaitStable]"
  have opened: "page_create e [Connect] url = None"
  proof (cases "page_create e [Connect] url")
    case None
    then show ?thesis .
  next
    case (Some err)
    with ran_out show ?thesis
      by (simp add: BrowserUse_def NewBrowser_def Open_def)
  qed
  obtain tr2 out where run: "for_loop e instruction maxTurns 0 ?tr1 initial_vars = (tr2, out)"
    by (cases "for_loop e instruction maxTurns 0 ?tr1 initial_vars")
  with ran_out have out: "out = Ran_out"
    by (simp add: BrowserUse_opened [OF opened])
  with run have "length (requests tr2) = length (requests ?tr1) + nat (maxTurns - 0)"
    using for_loop_ran_out by blast
  then have "length (requests tr2) = nat maxTurns"
    by (simp add: requests_def)
  then show "length (requests (fst (BrowserUse e url instruction maxTurns))) = nat maxTurns"
    using run by (simp add: BrowserUse_opened [OF opened] requests_append) (simp add: requests_def)
next
  assume works: "page_create e [Connect] url = None
       \<and> getenv e ''OPENAI_API_KEY'' \<noteq> ''''
       \<and> (\<forall>tr. \<not> ctx_done e tr)
       \<and> (\<forall>tr. \<exists>s. page_screenshot e tr = Inr s)
       \<and> (\<forall>tr request. \<exists>body response.
             http_do e tr request = Replied 200 body (Inr response)
             \<and> list_all (\<lambda>item. \<not> is_answer item) (resp_Output response))"
  let ?tr1 = "[Connect, CreateTarget url, SetViewport 1024 768, WaitStable]"
  have "snd (for_loop e instruction maxTurns 0 ?tr1 initial_vars) = Ran_out"
    using works by (intro for_loop_exhausts) blast+
  moreover from works have "page_create e [Connect] url = None" by blast
  ultimately show "snd (BrowserUse e url instruction maxTurns) = Ran_out"
    by (cases "for_loop e instruction maxTurns 0 ?tr1 initial_vars")
      (simp add: BrowserUse_opened)
next
  fix out
  show "result out = Return_nil \<longleftrightarrow> out = Ran_out \<or> (\<exists>s. out = Broke s)"
    by (rule result_nil_iff)
qed


theorem exhaustion_returns_nil_witness:
  "snd (BrowserUse (fake_env only_reasons) ''http://example.test/'' ''goal'' 3) = Ran_out
   \<and> result (snd (BrowserUse (fake_env only_reasons) ''http://example.test/'' ''goal'' 3))
       = Return_nil
   \<and> length (requests (fst (BrowserUse (fake_env only_reasons) ''http://example.test/''
       ''goal'' 3))) = 3"
proof -
  have "page_create (fake_env only_reasons) [Connect] ''http://example.test/'' = None
       \<and> getenv (fake_env only_reasons) ''OPENAI_API_KEY'' \<noteq> ''''
       \<and> (\<forall>tr. \<not> ctx_done (fake_env only_reasons) tr)
       \<and> (\<forall>tr. \<exists>s. page_screenshot (fake_env only_reasons) tr = Inr s)
       \<and> (\<forall>tr request. \<exists>body response.
             http_do (fake_env only_reasons) tr request = Replied 200 body (Inr response)
             \<and> list_all (\<lambda>item. \<not> is_answer item) (resp_Output response))"
    by (simp add: fake_defs only_reasons_def is_answer_def)
  with exhaustion_returns_nil [of "fake_env only_reasons" "''http://example.test/''" "''goal''" 3]
  show ?thesis by simp
qed

text \<open>
  Claim C2 as stated fails: the caller cannot tell exhaustion from a final
  answer. With a budget of one turn, the service that only reasons exhausts the
  budget and the service that answers \<^verbatim>\<open>hello\<close> ends on the answer, and
  \<^verbatim>\<open>BrowserUse\<close> returns the same nil to its caller.
\<close>

theorem exhaustion_and_answer_return_alike:
  "snd (BrowserUse (fake_env only_reasons) ''http://example.test/'' ''say hello'' 1) = Ran_out
   \<and> snd (BrowserUse (fake_env says_hello) ''http://example.test/'' ''say hello'' 1)
       = Broke ''hello''
   \<and> result (snd (BrowserUse (fake_env only_reasons) ''http://example.test/'' ''say hello'' 1))
       = result (snd (BrowserUse (fake_env says_hello) ''http://example.test/'' ''say hello'' 1))"
  by (simp add: run_defs fake_defs only_reasons_def says_hello_def result_def
      for_loop.simps [of _ _ 1 0] for_loop.simps [of _ _ 1 1])

text \<open>
  The end-to-end scenario of the specification: the first response is the answer
  \<^verbatim>\<open>hello\<close>. One request is sent, the answer is printed, and the browser is
  closed once.
\<close>

lemma hello_scenario:
  "BrowserUse (fake_env says_hello) ''http://example.test/'' ''say hello'' 16 =
     ([Connect, CreateTarget ''http://example.test/'', SetViewport 1024 768, WaitStable,
       Post (request_of '''' [user_message ''say hello'']),
       Stdout (''Final output: hello'' @ newline),
       MustClose],
      Broke ''hello'')"
  by (simp add: run_defs fake_defs says_hello_def request_of_def user_message_def
      for_loop.simps [of _ _ 16 0])

subsection \<open>The scan over the output items\<close>

lemma scanned_Nil: "scanned [] = []"
  by (simp add: scanned_def)

lemma scanned_Cons:
  "scanned (item # rest) = (if is_answer item then [item] else item # scanned rest)"
  by (simp add: scanned_def)

lemma dispatch_item_events:
  assumes "dispatch_item e item tr vs = (tr1, Inr vs1)"
  shows "tr1 = tr @ item_events item"
proof (cases "out_Action item")
  case None
  with assms show ?thesis by (simp add: dispatch_item_def item_events_def)
next
  case (Some a)
  show ?thesis
  proof (cases "page_screenshot e (perform tr a)")
    case (Inl err)
    with Some assms show ?thesis by (simp add: dispatch_item_def computerCall_failed)
  next
    case (Inr s)
    with Some assms show ?thesis
      using perform_append [of tr a]
      by (auto simp add: dispatch_item_def computerCall_captured item_events_def)
  qed
qed

lemma output_loop_item_failed:
  "dispatch_item e item tr vs = (tr1, Inl err) \<Longrightarrow>
   output_loop e (item # rest) tr vs = (tr1, Inl (Returned err))"
  by simp

lemma output_loop_item_answer:
  "dispatch_item e item tr vs = (tr1, Inr vs1) \<Longrightarrow> is_answer item \<Longrightarrow>
   output_loop e (item # rest) tr vs =
     (case out_Content item of
        Some [] \<Rightarrow> (tr1, Inl Panicked)
      | Some (c # cs) \<Rightarrow> (tr1, Inr (vs1, c))
      | None \<Rightarrow> (tr1, Inl Panicked))"
  by (auto simp add: is_answer_def split: option.splits list.splits)

lemma output_loop_item_other:
  "dispatch_item e item tr vs = (tr1, Inr vs1) \<Longrightarrow> \<not> is_answer item \<Longrightarrow>
   output_loop e (item # rest) tr vs = output_loop e rest tr1 vs1"
  by (auto simp add: is_answer_def split: option.splits)

lemma output_loop_trace:
  assumes "\<forall>err. snd (output_loop e items tr vs) \<noteq> Inl (Returned err)"
  shows "fst (output_loop e items tr vs) = tr @ concat (map item_events (scanned items))"
  using assms
proof (induction items arbitrary: tr vs)
  case Nil
  show ?case by (simp add: scanned_Nil)
next
  case (Cons item rest)
  obtain tr1 r where step: "dispatch_item e item tr vs = (tr1, r)"
    by (cases "dispatch_item e item tr vs")
  show ?case
  proof (cases r)
    case (Inl err)
    with step have "snd (output_loop e (item # rest) tr vs) = Inl (Returned err)"
      by (simp add: output_loop_item_failed del: output_loop.simps)
    with Cons.prems show ?thesis by blast
  next
    case (Inr vs1)
    with step have step: "dispatch_item e item tr vs = (tr1, Inr vs1)" by simp
    then have tr1: "tr1 = tr @ item_events item"
      by (rule dispatch_item_events)
    show ?thesis
    proof (cases "is_answer item")
      case True
      then have "fst (output_loop e (item # rest) tr vs) = tr1"
        using output_loop_item_answer [OF step True, of rest]
        by (simp del: output_loop.simps split: option.splits list.splits)
      with True tr1 show ?thesis by (simp add: scanned_Cons del: output_loop.simps)
    next
      case False
      then have same: "output_loop e (item # rest) tr vs = output_loop e rest tr1 vs1"
        using step by (rule output_loop_item_other [rotated])
      with Cons.prems have "\<forall>err. snd (output_loop e rest tr1 vs1) \<noteq> Inl (Returned err)"
        by simp
      from Cons.IH [OF this] same False tr1 show ?thesis
        by (simp add: scanned_Cons del: output_loop.simps)
    qed
  qed
qed

text \<open>
  Claim C1, as the code has it. The scan has no exit after an action: every item
  with an action, up to and including the first assistant item with content,
  is dispatched, in the order of the response. Unless a capture fails (which
  returns from the run), the events of the scan are those of all these items,
  one after the other.
\<close>

theorem every_action_item_is_dispatched:
  "(\<forall>err. snd (output_loop e items tr vs) \<noteq> Inl (Returned err)) \<longrightarrow>
   fst (output_loop e items tr vs) = tr @ concat (map item_events (scanned items))"
  using output_loop_trace [of e items tr vs] by blast

theorem every_action_item_is_dispatched_witness:
  "fst (output_loop (fake_env two_clicks)
      [call_item ''c1'' (click_at 1 2), reasoning_item, call_item ''c2'' (click_at 3 4),
       message_item [''done''], call_item ''c3'' (click_at 5 6)] [] initial_vars) =
     [MoveTo 1 2, MouseDown ''left'', MouseUp ''left'', WaitStable, TakeScreenshot, MustInfo,
      MoveTo 3 4, MouseDown ''left'', MouseUp ''left'', WaitStable, TakeScreenshot, MustInfo]"
proof -
  let ?items = "[call_item ''c1'' (click_at 1 2), reasoning_item, call_item ''c2'' (click_at 3 4),
       message_item [''done''], call_item ''c3'' (click_at 5 6)]"
  have "\<forall>err. snd (output_loop (fake_env two_clicks) ?items [] initial_vars) \<noteq> Inl (Returned err)"
    by (simp add: run_defs fake_defs)
  with every_action_item_is_dispatched [of "fake_env two_clicks" ?items "[]" initial_vars]
  have "fst (output_loop (fake_env two_clicks) ?items [] initial_vars) =
      [] @ concat (map item_events (scanned ?items))"
    by blast
  then show ?thesis
    by (simp add: scanned_def is_answer_def item_events_def fake_defs perform_def Click_def
        del: output_loop.simps)
qed

text \<open>
  Claim C1 as stated fails: with two computer calls in one response, the second
  click is executed as well, after the capture of the first.
\<close>

theorem second_action_is_dispatched:
  "BrowserUse (fake_env two_clicks) ''http://example.test/'' ''goal'' 1 =
     ([Connect, CreateTarget ''http://example.test/'', SetViewport 1024 768, WaitStable,
       Post (request_of '''' [user_message ''goal'']),
       MoveTo 1 2, MouseDown ''left'', MouseUp ''left'', WaitStable, TakeScreenshot, MustInfo,
       MoveTo 3 4, MouseDown ''left'', MouseUp ''left'', WaitStable, TakeScreenshot, MustInfo,
       Sleep 1000, MustClose],
      Ran_out)"
  by (simp add: run_defs fake_defs two_clicks_def request_of_def user_message_def
      for_loop.simps [of _ _ 1 0] for_loop.simps [of _ _ 1 1])

lemma output_loop_until_answer:
  assumes "list_all (\<lambda>item. \<not> is_answer item) before"
    and "is_answer answer" and "out_Content answer = Some (c # cs)"
  shows "(\<exists>tr' err. output_loop e (before @ answer # after) tr vs = (tr', Inl (Returned err)))
    \<or> (\<exists>vs'. output_loop e (before @ answer # after) tr vs =
          (tr @ concat (map item_events (before @ [answer])), Inr (vs', c)))"
  using assms(1)
proof (induction before arbitrary: tr vs)
  case Nil
  obtain tr1 r where step: "dispatch_item e answer tr vs = (tr1, r)"
    by (cases "dispatch_item e answer tr vs")
  show ?case
  proof (cases r)
    case (Inl err)
    with step show ?thesis by (simp add: output_loop_item_failed del: output_loop.simps)
  next
    case (Inr vs1)
    with step have step: "dispatch_item e answer tr vs = (tr1, Inr vs1)" by simp
    then have "tr1 = tr @ item_events answer" by (rule dispatch_item_events)
    then show ?thesis
      using output_loop_item_answer [OF step assms(2), of after] assms(3)
      by (simp del: output_loop.simps)
  qed
next
  case (Cons item rest)
  then have quiet: "\<not> is_answer item" and rest: "list_all (\<lambda>item. \<not> is_answer item) rest"
    by simp_all
  obtain tr1 r where step: "dispatch_item e item tr vs = (tr1, r)"
    by (cases "dispatch_item e item tr vs")
  show ?case
  proof (cases r)
    case (Inl err)
    with step show ?thesis by (simp add: output_loop_item_failed del: output_loop.simps)
  next
    case (Inr vs1)
    with step have step: "dispatch_item e item tr vs = (tr1, Inr vs1)" by simp
    then have tr1: "tr1 = tr @ item_events item" by (rule dispatch_item_events)
    have "output_loop e ((item # rest) @ answer # after) tr vs
        = output_loop e (rest @ answer # after) tr1 vs1"
      using output_loop_item_other [OF step quiet] by simp
    with Cons.IH [OF rest, of tr1 vs1] tr1 show ?thesis
      by (simp del: output_loop.simps)
  qed
qed

text \<open>
  Claim C5, as the code has it. Take a response in which an assistant item with
  content comes after items that are none, and let its first content element
  print as the non-empty text \<open>c\<close>. Unless the run returns an error (a capture
  failed), the iteration that receives this response executes every action of
  the items up to and including that item, in order, prints the answer and
  leaves the loop: no later item is read and no further request is sent.
\<close>

theorem action_then_answer:
  assumes "i < maxTurns" and "\<not> ctx_done e tr"
    and "Responses e tr model (responseID vs) (build_messages instruction vs) = (tr1, Inr response)"
    and "resp_Output response = before @ answer # after"
    and "list_all (\<lambda>item. \<not> is_answer item) before"
    and "is_answer answer" and "out_Content answer = Some (c # cs)" and "c \<noteq> ''''"
    and "\<forall>err. snd (for_loop e instruction maxTurns i tr vs) \<noteq> Returned err"
  shows "for_loop e instruction maxTurns i tr vs =
    (tr1 @ concat (map item_events (before @ [answer]))
         @ [Stdout (''Final output: '' @ c @ newline)],
     Broke c)"
proof -
  let ?vs = "vs\<lparr>responseID := resp_ID response\<rparr>"
  from output_loop_until_answer [OF assms(5,6,7), of e after tr1 ?vs]
  show ?thesis
  proof
    assume "\<exists>tr' err. output_loop e (before @ answer # after) tr1 ?vs = (tr', Inl (Returned err))"
    then obtain tr' err where "output_loop e (resp_Output response) tr1 ?vs = (tr', Inl (Returned err))"
      using assms(4) by auto
    with assms(3) have "turn e instruction tr vs = (tr', Inl (Returned err))"
      by (simp add: turn_def)
    with assms(1,2) have "for_loop e instruction maxTurns i tr vs = (tr', Returned err)"
      by (rule for_loop_left)
    with assms(9) show ?thesis by simp
  next
    assume "\<exists>vs'. output_loop e (before @ answer # after) tr1 ?vs =
        (tr1 @ concat (map item_events (before @ [answer])), Inr (vs', c))"
    then obtain vs' where "output_loop e (resp_Output response) tr1 ?vs =
        (tr1 @ concat (map item_events (before @ [answer])), Inr (vs', c))"
      using assms(4) by auto
    with assms(3,8) have "turn e instruction tr vs =
        (tr1 @ concat (map item_events (before @ [answer]))
           @ [Stdout (''Final output: '' @ c @ newline)], Inl (Broke c))"
      by (simp add: turn_def)
    with assms(1,2) show ?thesis
      by (rule for_loop_left)
  qed
qed

theorem action_then_answer_witness:
  "for_loop (fake_env click_and_hello) ''goal'' 16 0 [Connect] initial_vars =
     ([Connect, Post (request_of '''' [user_message ''goal'']),
       MoveTo 1 2, MouseDown ''left'', MouseUp ''left'', WaitStable, TakeScreenshot, MustInfo,
       Stdout (''Final output: hello'' @ newline)],
      Broke ''hello'')"
proof -
  let ?e = "fake_env click_and_hello"
  have sent: "Responses ?e [Connect] model (responseID initial_vars)
      (build_messages ''goal'' initial_vars) =
      ([Connect, Post (request_of '''' [user_message ''goal''])],
       Inr (respond ''r1'' [call_item ''c1'' (click_at 1 2), message_item [''hello'']]))"
    by (simp add: Responses_def fake_env_def click_and_hello_def initial_vars_def
        build_messages_def request_of_def user_message_def)
  have items: "resp_Output (respond ''r1'' [call_item ''c1'' (click_at 1 2), message_item [''hello'']])
      = [call_item ''c1'' (click_at 1 2)] @ message_item [''hello''] # []"
    by (simp add: respond_def)
  have no_error: "\<forall>err. snd (for_loop ?e ''goal'' 16 0 [Connect] initial_vars) \<noteq> Returned err"
    by (simp add: run_defs fake_defs click_and_hello_def
        for_loop.simps [of _ _ 16 0])
  have "for_loop ?e ''goal'' 16 0 [Connect] initial_vars =
      ([Connect, Post (request_of '''' [user_message ''goal''])]
         @ concat (map item_events ([call_item ''c1'' (click_at 1 2)] @ [message_item [''hello'']]))
         @ [Stdout (''Final output: '' @ ''hello'' @ newline)],
       Broke ''hello'')"
    by (rule action_then_answer [OF _ _ sent items _ _ _ _ no_error])
      (simp_all add: fake_defs is_answer_def)
  then show ?thesis
    by (simp add: item_events_def fake_defs perform_def Click_def)
qed

text \<open>
  Claim C5 as stated fails: the loop does not always end at the first assistant
  item with content. When the first content element prints as the empty text,
  \<^verbatim>\<open>finalOutput\<close> stays empty: after the click the loop sleeps and sends the next
  request.
\<close>

theorem empty_answer_does_not_end_loop:
  "BrowserUse (fake_env click_and_empty_text) ''http://example.test/'' ''goal'' 2 =
     ([Connect, CreateTarget ''http://example.test/'', SetViewport 1024 768, WaitStable,
       Post (request_of '''' [user_message ''goal'']),
       MoveTo 1 2, MouseDown ''left'', MouseUp ''left'', WaitStable, TakeScreenshot, MustInfo,
       Sleep 1000,
       Post (request_of ''r1''
         [call_output ''c1'' (Some \<lparr>co_Type = ''input_image'',
            co_ImageURL = ''data:image/png;base64,TWFu'',
            co_CurrentURL = ''http://example.test/''\<rparr>)]),
       MoveTo 1 2, MouseDown ''left'', MouseUp ''left'', WaitStable, TakeScreenshot, MustInfo,
       Sleep 1000, MustClose],
      Ran_out)"
  by (simp add: run_defs fake_defs click_and_empty_text_def request_of_def user_message_def
      call_output_def for_loop.simps [of _ _ 2 0] for_loop.simps [of _ _ 2 1]
      for_loop.simps [of _ _ 2 2])

subsection \<open>What the next request carries\<close>

lemma dispatch_item_vars:
  assumes "dispatch_item e item tr vs = (tr1, Inr vs1)"
  shows "responseID vs1 = responseID vs
    \<and> (out_Action item = None \<longrightarrow> vs1 = vs)
    \<and> (\<forall>action. out_Action item = Some action \<longrightarrow>
          (\<exists>tr2 out. computerCall e tr action = (tr2, Inr out)
             \<and> callID vs1 = out_CallID item \<and> callResp vs1 = Some out))"
  using assms
  by (auto simp add: dispatch_item_def split: option.splits prod.splits sum.splits)

lemma output_loop_keeps_call:
  assumes "output_loop e items tr vs = (tr', Inr (vs', final))"
    and "list_all (\<lambda>item. out_Action item = None) (scanned items)"
  shows "vs' = vs"
  using assms
proof (induction items arbitrary: tr vs)
  case Nil
  then show ?case by simp
next
  case (Cons item rest)
  from Cons.prems(2) have idle: "out_Action item = None"
    by (simp add: scanned_Cons split: if_splits)
  then have step: "dispatch_item e item tr vs = (tr, Inr vs)"
    by (simp add: dispatch_item_def)
  show ?case
  proof (cases "is_answer item")
    case True
    with Cons.prems(1) show ?thesis
      using output_loop_item_answer [OF step True, of rest]
      by (simp del: output_loop.simps split: option.splits list.splits)
  next
    case False
    with Cons.prems have "output_loop e rest tr vs = (tr', Inr (vs', final))"
        and "list_all (\<lambda>item. out_Action item = None) (scanned rest)"
      using output_loop_item_other [OF step False, of rest]
      by (simp_all add: scanned_Cons del: output_loop.simps)
    then show ?thesis by (rule Cons.IH)
  qed
qed

lemma output_loop_last_call:
  assumes "output_loop e items tr vs = (tr', Inr (vs', final))"
    and "scanned items = before @ item # after"
    and "out_Action item = Some action"
    and "list_all (\<lambda>item. out_Action item = None) after"
  shows "\<exists>tr2 out. computerCall e (tr @ concat (map item_events before)) action = (tr2, Inr out)
    \<and> callID vs' = out_CallID item \<and> callResp vs' = Some out"
  using assms(1,2)
proof (induction items arbitrary: tr vs before)
  case Nil
  then show ?case by (simp add: scanned_Nil)
next
  case (Cons first rest)
  obtain tr1 r where step: "dispatch_item e first tr vs = (tr1, r)"
    by (cases "dispatch_item e first tr vs")
  from Cons.prems(1) step obtain vs1 where r: "r = Inr vs1"
    by (cases r) (simp_all add: output_loop_item_failed del: output_loop.simps)
  with step have step: "dispatch_item e first tr vs = (tr1, Inr vs1)" by simp
  then have tr1: "tr1 = tr @ item_events first" by (rule dispatch_item_events)
  note vars = dispatch_item_vars [OF step]
  show ?case
  proof (cases before)
    case Nil
    with Cons.prems(2) have first: "first = item"
      and rest: "after = (if is_answer first then [] else scanned rest)"
      by (simp_all add: scanned_Cons split: if_splits)
    from vars first assms(3) obtain tr2 out where
      call: "computerCall e tr action = (tr2, Inr out)"
        "callID vs1 = out_CallID item" "callResp vs1 = Some out"
      by blast
    have "vs' = vs1"
    proof (cases "is_answer first")
      case True
      with Cons.prems(1) show ?thesis
        using output_loop_item_answer [OF step True, of rest]
        by (simp del: output_loop.simps split: option.splits list.splits)
    next
      case False
      with Cons.prems(1) have "output_loop e rest tr1 vs1 = (tr', Inr (vs', final))"
        using output_loop_item_other [OF step False, of rest] by (simp del: output_loop.simps)
      moreover from False rest assms(4)
      have "list_all (\<lambda>item. out_Action item = None) (scanned rest)" by simp
      ultimately show ?thesis by (rule output_loop_keeps_call)
    qed
    with call Nil show ?thesis by simp
  next
    case (Cons b before')
    with Cons.prems(2) have b: "b = first" and quiet: "\<not> is_answer first"
      and rest: "scanned rest = before' @ item # after"
      by (simp_all add: scanned_Cons split: if_splits)
    from quiet Cons.prems(1) have "output_loop e rest tr1 vs1 = (tr', Inr (vs', final))"
      using output_loop_item_other [OF step quiet, of rest] by (simp del: output_loop.simps)
    from Cons.IH [OF this rest] obtain tr2 out where
      "computerCall e (tr1 @ concat (map item_events before')) action = (tr2, Inr out)"
      "callID vs' = out_CallID item" "callResp vs' = Some out"
      by blast
    with tr1 b Cons show ?thesis by simp
  qed
qed

lemma output_loop_responseID:
  "output_loop e items tr vs = (tr', Inr (vs', final)) \<Longrightarrow> responseID vs' = responseID vs"
proof (induction items arbitrary: tr vs)
  case Nil
  then show ?case by simp
next
  case (Cons item rest)
  obtain tr1 r where step: "dispatch_item e item tr vs = (tr1, r)"
    by (cases "dispatch_item e item tr vs")
  from Cons.prems step obtain vs1 where r: "r = Inr vs1"
    by (cases r) (simp_all add: output_loop_item_failed del: output_loop.simps)
  with step have step: "dispatch_item e item tr vs = (tr1, Inr vs1)" by simp
  then have same: "responseID vs1 = responseID vs"
    using dispatch_item_vars by blast
  show ?case
  proof (cases "is_answer item")
    case True
    with Cons.prems same show ?thesis
      using output_loop_item_answer [OF step True, of rest]
      by (auto simp del: output_loop.simps split: option.splits list.splits)
  next
    case False
    with Cons.prems have "output_loop e rest tr1 vs1 = (tr', Inr (vs', final))"
      using output_loop_item_other [OF step False, of rest] by (simp del: output_loop.simps)
    from Cons.IH [OF this] same show ?thesis by simp
  qed
qed

text \<open>
  Claim C4, as the code has it. The first request carries the goal, and so does
  any request made while the stored response id is empty. A request made when
  the stored response id is not empty carries one
  \<^verbatim>\<open>computer_call_output\<close> item with the stored call id and Observation. A
  turn that goes on to the next iteration has sent exactly this request, stores
  the id of its response, and leaves the stored call id and Observation as they
  were when no scanned item carried an action; otherwise they are the call id
  of the last scanned item with an action and the Observation that dispatching
  this action returned.
\<close>

theorem next_request_input:
  "build_messages instruction initial_vars = [user_message instruction]
   \<and> (responseID vs = '''' \<longrightarrow> build_messages instruction vs = [user_message instruction])
   \<and> (responseID vs \<noteq> '''' \<longrightarrow>
        build_messages instruction vs = [call_output (callID vs) (callResp vs)])
   \<and> (turn e instruction tr vs = (tr', Inr vs') \<longrightarrow>
        (\<exists>tr1 response.
           Responses e tr model (responseID vs) (build_messages instruction vs)
             = (tr1, Inr response)
           \<and> tr1 = tr @ [Post (request_of (responseID vs) (build_messages instruction vs))]
           \<and> responseID vs' = resp_ID response
           \<and> (list_all (\<lambda>item. out_Action item = None) (scanned (resp_Output response)) \<longrightarrow>
                callID vs' = callID vs \<and> callResp vs' = callResp vs)
           \<and> (\<forall>before item action after.
                scanned (resp_Output response) = before @ item # after
                \<and> out_Action item = Some action
                \<and> list_all (\<lambda>item. out_Action item = None) after \<longrightarrow>
                (\<exists>tr2 out.
                   computerCall e (tr1 @ concat (map item_events before)) action = (tr2, Inr out)
                   \<and> callID vs' = out_CallID item \<and> callResp vs' = Some out))))"
proof (intro conjI impI)
  show "build_messages instruction initial_vars = [user_message instruction]"
    by (simp add: build_messages_def initial_vars_def user_message_def)
next
  assume "responseID vs = ''''"
  then show "build_messages instruction vs = [user_message instruction]"
    by (simp add: build_messages_def user_message_def)
next
  assume "responseID vs \<noteq> ''''"
  then show "build_messages instruction vs = [call_output (callID vs) (callResp vs)]"
    by (simp add: build_messages_def call_output_def)
next
  assume goes_on: "turn e instruction tr vs = (tr', Inr vs')"
  let ?input = "build_messages instruction vs"
  obtain tr1 r where sent: "Responses e tr model (responseID vs) ?input = (tr1, r)"
    by (cases "Responses e tr model (responseID vs) ?input")
  from goes_on sent obtain response where r: "r = Inr response"
    by (cases r) (simp_all add: turn_def)
  with sent have sent: "Responses e tr model (responseID vs) ?input = (tr1, Inr response)"
    by simp
  then have tr1: "tr1 = tr @ [Post (request_of (responseID vs) ?input)]"
    by (rule Responses_answered)
  let ?vs = "vs\<lparr>responseID := resp_ID response\<rparr>"
  obtain tr2 s where scan: "output_loop e (resp_Output response) tr1 ?vs = (tr2, s)"
    by (cases "output_loop e (resp_Output response) tr1 ?vs")
  from goes_on sent scan obtain final where s: "s = Inr (vs', final)"
    by (cases s) (auto simp add: turn_def split: if_splits)
  with scan have scan: "output_loop e (resp_Output response) tr1 ?vs = (tr2, Inr (vs', final))"
    by simp
  have id: "responseID vs' = resp_ID response"
    using output_loop_responseID [OF scan] by simp
  have keep: "list_all (\<lambda>item. out_Action item = None) (scanned (resp_Output response)) \<longrightarrow>
      callID vs' = callID vs \<and> callResp vs' = callResp vs"
    using output_loop_keeps_call [OF scan] by auto
  have last: "\<forall>before item action after.
      scanned (resp_Output response) = before @ item # after
      \<and> out_Action item = Some action
      \<and> list_all (\<lambda>item. out_Action item = None) after \<longrightarrow>
      (\<exists>tr2 out.
         computerCall e (tr1 @ concat (map item_events before)) action = (tr2, Inr out)
         \<and> callID vs' = out_CallID item \<and> callResp vs' = Some out)"
    using output_loop_last_call [OF scan] by blast
  from sent tr1 id keep last
  show "\<exists>tr1 response.
      Responses e tr model (responseID vs) ?input = (tr1, Inr response)
      \<and> tr1 = tr @ [Post (request_of (responseID vs) ?input)]
      \<and> responseID vs' = resp_ID response
      \<and> (list_all (\<lambda>item. out_Action item = None) (scanned (resp_Output response)) \<longrightarrow>
           callID vs' = callID vs \<and> callResp vs' = callResp vs)
      \<and> (\<forall>before item action after.
           scanned (resp_Output response) = before @ item # after
           \<and> out_Action item = Some action
           \<and> list_all (\<lambda>item. out_Action item = None) after \<longrightarrow>
           (\<exists>tr2 out.
              computerCall e (tr1 @ concat (map item_events before)) action = (tr2, Inr out)
              \<and> callID vs' = out_CallID item \<and> callResp vs' = Some out))"
    by blast
qed

theorem next_request_input_witness:
  "build_messages ''goal'' initial_vars = [user_message ''goal'']
   \<and> responseID initial_vars = ''''
   \<and> responseID \<lparr>responseID = ''r1'', callID = ''c1'', callResp = Some observation\<rparr> = ''r1''
   \<and> build_messages ''goal'' \<lparr>responseID = ''r1'', callID = ''c1'', callResp = Some observation\<rparr>
       = [call_output ''c1'' (Some observation)]
   \<and> turn (fake_env click_then_reasons) ''goal'' [Connect] initial_vars =
       ([Connect, Post (request_of '''' [user_message ''goal'']),
         MoveTo 1 2, MouseDown ''left'', MouseUp ''left'', WaitStable, TakeScreenshot, MustInfo,
         Sleep 1000],
        Inr \<lparr>responseID = ''r1'', callID = ''c1'', callResp = Some observation\<rparr>)"
  using next_request_input [of "''goal''"
      "\<lparr>responseID = ''r1'', callID = ''c1'', callResp = Some observation\<rparr>"
      "fake_env click_then_reasons" "[Connect]" "[]"
      "\<lparr>responseID = ''r1'', callID = ''c1'', callResp = Some observation\<rparr>"]
    next_request_input [of "''goal''" initial_vars
      "fake_env click_then_reasons" "[Connect]"
      "[Connect, Post (request_of '''' [user_message ''goal'']),
         MoveTo 1 2, MouseDown ''left'', MouseUp ''left'', WaitStable, TakeScreenshot, MustInfo,
         Sleep 1000]"
      "\<lparr>responseID = ''r1'', callID = ''c1'', callResp = Some observation\<rparr>"]
  by (simp add: run_defs fake_defs click_then_reasons_def request_of_def user_message_def
      call_output_def observation_def)

text \<open>
  Claim C4 as stated fails: a call reference can be sent back twice, and a later
  request need not carry the Observation of the turn before it. The first
  response asks for a click (call \<^verbatim>\<open>c1\<close>); the second carries no action; the
  third request repeats the call id and the Observation of the second.
\<close>

theorem call_reference_sent_twice:
  "map req_Input (requests (fst (BrowserUse (fake_env click_then_reasons)
      ''http://example.test/'' ''goal'' 3))) =
     [[user_message ''goal''],
      [call_output ''c1'' (Some observation)],
      [call_output ''c1'' (Some observation)]]"
  by (simp add: run_defs fake_defs click_then_reasons_def requests_def user_message_def
      call_output_def observation_def for_loop.simps [of _ _ 3 0] for_loop.simps [of _ _ 3 1]
      for_loop.simps [of _ _ 3 2] for_loop.simps [of _ _ 3 3])

end
